theory Spec2Isabelle
  imports Main "HOL-Library.Multiset" "HOL-Library.Char_ord" "HOL-Library.List_Lexorder"
begin

section \<open>Lock-file mode selection\<close>

text \<open>
  The five lock-file handling modes of the flake resolver, and
  \<^verbatim>\<open>MixFlakeOptions::getLockFileMode\<close>, which reads the three option fields
  \<^verbatim>\<open>useRegistries\<close>, \<^verbatim>\<open>recreateLockFile\<close> and \<^verbatim>\<open>saveLockFile\<close>.
\<close>

datatype HandleLockFile =
  AllPure | UseNewLockFile | UseUpdatedLockFile | RecreateLockFile | UpdateLockFile

record MixFlakeOptions =
  recreateLockFile :: bool
  saveLockFile :: bool
  useRegistries :: bool

definition getLockFileMode :: "MixFlakeOptions \<Rightarrow> HandleLockFile" where
  "getLockFileMode opts =
     (if useRegistries opts
      then (if recreateLockFile opts
            then (if saveLockFile opts then RecreateLockFile else UseNewLockFile)
            else (if saveLockFile opts then UpdateLockFile else UseUpdatedLockFile))
      else AllPure)"

section \<open>Errors\<close>

text \<open>
  Exceptions are values. \<open>Error fmt args\<close> is \<^verbatim>\<open>nix::Error\<close> built from a format
  string and its arguments, kept apart so that what an error reports can be read off.
  \<open>ArgQuoted xs\<close> stands for the argument
  \<^verbatim>\<open>concatStringsSep(", ", quoteStrings(xs))\<close>. The other constructors are the
  exception classes the code catches by name, a failed \<^verbatim>\<open>assert\<close>, the dereference
  of \<^verbatim>\<open>begin()\<close> of an empty container, and the failures of the evaluator and of
  the operating system.
\<close>

datatype fmtArg = ArgStr string | ArgNat nat | ArgQuoted "string list"

datatype error =
    Error string "fmtArg list"
  | MissingFlake string
  | BadFlakeRef string
  | NotInStore string
  | AttrPathNotFound string
  | EvalError string
  | SysError string
  | AssertionFailure string
  | UndefinedBehaviour string

section \<open>String helpers\<close>

text \<open>
  Modelled from the spec: \<^verbatim>\<open>concatStringsSep\<close> (util.hh, not part of the file under
  verification) joins the elements of a container with a separator between neighbours.
\<close>

fun concatStringsSep :: "string \<Rightarrow> string list \<Rightarrow> string" where
  "concatStringsSep sep [] = []"
| "concatStringsSep sep [x] = x"
| "concatStringsSep sep (x # y # ys) = x @ sep @ concatStringsSep sep (y # ys)"

text \<open>
  Modelled from the spec: \<^verbatim>\<open>replaceStrings\<close> (util.hh, not part of the file under
  verification) replaces, scanning from the left, every occurrence of \<open>from\<close> by
  \<open>to\<close>; replaced text is not scanned again, and an empty \<open>from\<close> changes nothing.
\<close>

fun replaceStrings :: "string \<Rightarrow> string \<Rightarrow> string \<Rightarrow> string" where
  "replaceStrings s from to =
     (if from = [] then s
      else (case s of
              [] \<Rightarrow> []
            | c # cs \<Rightarrow>
                if take (length from) s = from
                then to @ replaceStrings (drop (length from) s) from to
                else c # replaceStrings cs from to))"

text \<open>Modelled from the spec: \<^verbatim>\<open>hasPrefix\<close> (util.hh): \<open>s\<close> starts with \<open>pre\<close>.\<close>

definition hasPrefix :: "string \<Rightarrow> string \<Rightarrow> bool" where
  "hasPrefix s pre = (take (length pre) s = pre)"

text \<open>\<^verbatim>\<open>std::string::rfind(c)\<close>: the index of the last \<open>c\<close>, \<open>None\<close> for \<^verbatim>\<open>npos\<close>.\<close>

fun rfind :: "char \<Rightarrow> string \<Rightarrow> nat option" where
  "rfind c [] = None"
| "rfind c (x # xs) =
     (case rfind c xs of
        Some i \<Rightarrow> Some (Suc i)
      | None \<Rightarrow> if x = c then Some 0 else None)"

section \<open>Installables\<close>

text \<open>
  The four implementations of \<^verbatim>\<open>Installable\<close>. \<open>'ref\<close> is \<^verbatim>\<open>FlakeRef\<close> and
  \<open>'v\<close> the evaluator's \<^verbatim>\<open>Value *\<close>; both belong to collaborators.
  \<open>InstallableFlake r attrPaths prefixes\<close> carries the three fields of the struct; its
  first constructor leaves \<open>prefixes\<close> empty, the second stores one attribute path.
\<close>

datatype ('ref, 'v) Installable =
    InstallableStorePath string
  | InstallableExpr string
  | InstallableAttrPath 'v string
  | InstallableFlake 'ref "string list" "string list"

text \<open>
  \<^verbatim>\<open>what()\<close>. For a flake installable it reads \<^verbatim>\<open>*attrPaths.begin()\<close>, which is
  undefined on an empty list. \<open>to_string\<close> is \<^verbatim>\<open>FlakeRef::to_string\<close>.
\<close>

fun what :: "('ref \<Rightarrow> string) \<Rightarrow> ('ref, 'v) Installable \<Rightarrow> error + string" where
  "what to_string (InstallableStorePath storePath) = Inr storePath"
| "what to_string (InstallableExpr text) = Inr text"
| "what to_string (InstallableAttrPath v attrPath) = Inr attrPath"
| "what to_string (InstallableFlake flakeRef attrPaths prefixes) =
     (case attrPaths of
        [] \<Rightarrow> Inl (UndefinedBehaviour ''*attrPaths.begin()'')
      | a # _ \<Rightarrow> Inr (to_string flakeRef @ '':'' @ a))"

section \<open>The installable parser\<close>

text \<open>
  What \<^verbatim>\<open>SourceExprCommand::parseInstallables\<close> reads from its surroundings:
  the \<^verbatim>\<open>file\<close> option (the field \<open>fileArg\<close>), the evaluation of that file
  (\<^verbatim>\<open>lookupFileArg\<close> and \<^verbatim>\<open>evalFile\<close>), the constructor
  \<^verbatim>\<open>FlakeRef(s, allowRelative)\<close>, which throws \<^verbatim>\<open>MissingFlake\<close> or
  \<^verbatim>\<open>BadFlakeRef\<close>, the store's \<^verbatim>\<open>followLinksToStorePath\<close>, which throws
  \<^verbatim>\<open>NotInStore\<close>, and the two virtual methods giving the default attribute paths
  and the default prefixes. The deprecation warning of the \<^verbatim>\<open>nixpkgs.\<close> syntax is
  log output and is not part of the result.
\<close>

record ('ref, 'v) ParseEnv =
  fileArg :: "string option"
  evalFile :: "string \<Rightarrow> error + 'v"
  newFlakeRef :: "string \<Rightarrow> bool \<Rightarrow> error + 'ref"
  followLinksToStorePath :: "string \<Rightarrow> error + string"
  getDefaultFlakeAttrPaths :: "string list"
  getDefaultFlakeAttrPathPrefixes :: "string list"

text \<open>The lambda \<^verbatim>\<open>follow\<close>: \<^verbatim>\<open>NotInStore\<close> becomes an empty optional.\<close>

definition follow :: "('ref, 'v) ParseEnv \<Rightarrow> string \<Rightarrow> error + string option" where
  "follow env s =
     (case followLinksToStorePath env s of
        Inr p \<Rightarrow> Inr (Some p)
      | Inl (NotInStore m) \<Rightarrow> Inr None
      | Inl e \<Rightarrow> Inl e)"

text \<open>
  The \<^verbatim>\<open>try\<close> around \<^verbatim>\<open>FlakeRef(s, true)\<close>: \<open>Inr (Inr r)\<close> is the reference,
  \<open>Inr (Inl flakeEx)\<close> a caught exception with what \<^verbatim>\<open>flakeEx\<close> then holds, and
  \<open>Inl e\<close> an exception of another class, which leaves the function.
\<close>

definition tryFlakeRef ::
  "('ref, 'v) ParseEnv \<Rightarrow> string \<Rightarrow> error + (error option + 'ref)" where
  "tryFlakeRef env s =
     (case newFlakeRef env s True of
        Inr r \<Rightarrow> Inr (Inr r)
      | Inl (MissingFlake m) \<Rightarrow> Inr (Inl (Some (MissingFlake m)))
      | Inl (BadFlakeRef m) \<Rightarrow> Inr (Inl None)
      | Inl e \<Rightarrow> Inl e)"

text \<open>The last \<^verbatim>\<open>else\<close> of the loop body.\<close>

definition rethrowOrUnsupported :: "error option \<Rightarrow> string \<Rightarrow> error" where
  "rethrowOrUnsupported flakeEx s =
     (case flakeEx of
        Some e \<Rightarrow> e
      | None \<Rightarrow> Error (''unsupported argument '%s'' @ [CHR 0x27]) [ArgStr s])"

text \<open>The body of the loop over the strings, when no file is given.\<close>

definition parseInstallableString ::
  "('ref, 'v) ParseEnv \<Rightarrow> string \<Rightarrow> error + ('ref, 'v) Installable" where
  "parseInstallableString env s =
     (if take 1 s = ''(''
      then Inr (InstallableExpr s)
      else if hasPrefix s ''nixpkgs.''
      then (case newFlakeRef env ''nixpkgs'' False of
              Inl e \<Rightarrow> Inl e
            | Inr r \<Rightarrow> Inr (InstallableFlake r [''legacyPackages.'' @ drop 8 s] []))
      else (case tryFlakeRef env s of
              Inl e \<Rightarrow> Inl e
            | Inr (Inr r) \<Rightarrow> Inr (InstallableFlake r (getDefaultFlakeAttrPaths env) [])
            | Inr (Inl flakeEx) \<Rightarrow>
                (case rfind CHR '':'' s of
                   Some colon \<Rightarrow>
                     (case newFlakeRef env (take colon s) True of
                        Inl e \<Rightarrow> Inl e
                      | Inr r \<Rightarrow>
                          Inr (InstallableFlake r [drop (colon + 1) s]
                                 (getDefaultFlakeAttrPathPrefixes env)))
                 | None \<Rightarrow>
                     if CHR ''/'' \<in> set s
                     then (case follow env s of
                             Inl e \<Rightarrow> Inl e
                           | Inr (Some storePath) \<Rightarrow> Inr (InstallableStorePath storePath)
                           | Inr None \<Rightarrow> Inl (rethrowOrUnsupported flakeEx s))
                     else Inl (rethrowOrUnsupported flakeEx s))))"

fun parseLoop ::
  "('ref, 'v) ParseEnv \<Rightarrow> string list \<Rightarrow> error + ('ref, 'v) Installable list" where
  "parseLoop env [] = Inr []"
| "parseLoop env (s # ss) =
     (case parseInstallableString env s of
        Inl e \<Rightarrow> Inl e
      | Inr i \<Rightarrow>
          (case parseLoop env ss of
             Inl e \<Rightarrow> Inl e
           | Inr result \<Rightarrow> Inr (i # result)))"

definition parseInstallables ::
  "('ref, 'v) ParseEnv \<Rightarrow> string list \<Rightarrow> error + ('ref, 'v) Installable list" where
  "parseInstallables env ss =
     (case fileArg env of
        Some f \<Rightarrow>
          (case evalFile env f of
             Inl e \<Rightarrow> Inl e
           | Inr vFile \<Rightarrow>
               Inr (map (InstallableAttrPath vFile) (if ss = [] then [''''] else ss)))
      | None \<Rightarrow> parseLoop env ss)"

definition parseInstallable ::
  "('ref, 'v) ParseEnv \<Rightarrow> string \<Rightarrow> error + ('ref, 'v) Installable" where
  "parseInstallable env installable =
     (case parseInstallables env [installable] of
        Inl e \<Rightarrow> Inl e
      | Inr [i] \<Rightarrow> Inr i
      | Inr _ \<Rightarrow> Inl (AssertionFailure ''installables.size() == 1''))"

section \<open>Derivations and buildables\<close>

text \<open>
  \<^verbatim>\<open>flake::EvalCache::Derivation\<close> and \<^verbatim>\<open>Buildable\<close>. The outputs of a buildable
  are a \<^verbatim>\<open>std::map\<close> from output name to store path.
\<close>

datatype Derivation =
  Derivation (drvPath: string) (outPath: string) (outputName: string)

record Buildable =
  drvPath :: string
  outputs :: "string \<rightharpoonup> string"

text \<open>\<^verbatim>\<open>std::map::emplace\<close> and the range \<^verbatim>\<open>insert\<close>: a key already present keeps its value.\<close>

definition emplace :: "('k \<rightharpoonup> 'a) \<Rightarrow> 'k \<Rightarrow> 'a \<Rightarrow> ('k \<rightharpoonup> 'a)" where
  "emplace m k v = (if k \<in> dom m then m else m(k \<mapsto> v))"

definition insertRange :: "('k \<rightharpoonup> 'a) \<Rightarrow> ('k \<rightharpoonup> 'a) \<Rightarrow> ('k \<rightharpoonup> 'a)" where
  "insertRange m m2 = m2 ++ m"

text \<open>
  The first loop of \<^verbatim>\<open>InstallableValue::toBuildables\<close>, over the derivations that
  \<^verbatim>\<open>toDerivations()\<close> returned; the state is \<^verbatim>\<open>(res, drvPaths)\<close>.
\<close>

fun collectBuildables ::
  "Derivation list \<Rightarrow> Buildable list \<times> string set \<Rightarrow> error + Buildable list \<times> string set" where
  "collectBuildables [] acc = Inr acc"
| "collectBuildables (drv # drvs) (res, drvPaths) =
     (let b = \<lparr>Buildable.drvPath = Derivation.drvPath drv, outputs = Map.empty\<rparr>;
          drvPaths' = insert (Buildable.drvPath b) drvPaths
      in if outputName drv = ''''
         then Inl (Error ''derivation '%s' lacks an 'outputName' attribute''
                     [ArgStr (Buildable.drvPath b)])
         else collectBuildables drvs
                (res @ [b\<lparr>outputs := emplace (outputs b) (outputName drv) (outPath drv)\<rparr>],
                 drvPaths'))"

text \<open>The merging loop: every buildable's outputs are inserted into \<open>b\<close>.\<close>

fun mergeOutputs :: "Buildable \<Rightarrow> Buildable list \<Rightarrow> Buildable" where
  "mergeOutputs b [] = b"
| "mergeOutputs b (b2 # res) =
     mergeOutputs (b\<lparr>outputs := insertRange (outputs b) (outputs b2)\<rparr>) res"

text \<open>
  \<^verbatim>\<open>InstallableValue::toBuildables\<close>, given what the virtual \<^verbatim>\<open>toDerivations()\<close>
  returned or threw. \<^verbatim>\<open>*drvPaths.begin()\<close> is read only when the set has one element.
\<close>

definition toBuildablesOf :: "error + Derivation list \<Rightarrow> error + Buildable list" where
  "toBuildablesOf derivations =
     (case derivations of
        Inl e \<Rightarrow> Inl e
      | Inr drvs \<Rightarrow>
          (case collectBuildables drvs ([], {}) of
             Inl e \<Rightarrow> Inl e
           | Inr (res, drvPaths) \<Rightarrow>
               if card drvPaths = 1
               then Inr [mergeOutputs
                           \<lparr>Buildable.drvPath = Min drvPaths, outputs = Map.empty\<rparr> res]
               else Inr res))"

section \<open>Flake installables: candidate attribute paths and the evaluation cache\<close>

text \<open>
  \<^verbatim>\<open>InstallableFlake::getActualAttrPaths\<close>: every prefix joined with the first
  attribute path, then the attribute paths themselves. With a prefix and no attribute
  path the code dereferences \<^verbatim>\<open>attrPaths.begin()\<close> of an empty list.
\<close>

definition getActualAttrPaths :: "string list \<Rightarrow> string list \<Rightarrow> error + string list" where
  "getActualAttrPaths attrPaths prefixes =
     (if prefixes = [] then Inr attrPaths
      else (case attrPaths of
              [] \<Rightarrow> Inl (UndefinedBehaviour ''*attrPaths.begin()'')
            | a # _ \<Rightarrow> Inr (map (\<lambda>prefix. prefix @ a) prefixes @ attrPaths)))"

text \<open>
  The collaborators of \<^verbatim>\<open>InstallableFlake::toDerivations\<close>. \<open>'w\<close> is the world
  they act on (the store, the evaluator's heap, the network), \<open>'rf\<close> a resolved flake,
  \<open>'v\<close> a value. Each call takes the world and returns the new one with its result or
  the exception it threw. \<open>getFlakeOutputs\<close> is the method of that name (it calls the
  flake, writes the GC root and forces the outputs); \<open>findAlongAttrPath\<close> stands for
  the lookup followed by \<^verbatim>\<open>forceValue\<close>; \<open>getDerivation\<close> for the probe followed
  by the three queries of the derivation found, \<open>None\<close> when the value is no derivation.
\<close>

record ('ref, 'rf, 'v, 'w) EvalEnv =
  to_string :: "'ref \<Rightarrow> string"
  resolveFlake :: "'ref \<Rightarrow> HandleLockFile \<Rightarrow> 'w \<Rightarrow> (error + 'rf) \<times> 'w"
  getFingerprint :: "'rf \<Rightarrow> string"
  storeIsValidPath :: "'w \<Rightarrow> string \<Rightarrow> bool"
  getFlakeOutputs :: "'ref \<Rightarrow> 'rf \<Rightarrow> 'w \<Rightarrow> (error + 'v) \<times> 'w"
  findAlongAttrPath :: "'v \<Rightarrow> string \<Rightarrow> 'w \<Rightarrow> (error + 'v) \<times> 'w"
  getDerivation :: "'v \<Rightarrow> 'w \<Rightarrow> (error + Derivation option) \<times> 'w"

text \<open>
  The state a resolution runs in: the world, the evaluation cache, and a counter of the
  calls of \<open>getFlakeOutputs\<close>, kept to tell whether the outputs were evaluated.

  Modelled from the spec: the evaluation cache \<^verbatim>\<open>flake::EvalCache\<close>
  (flake/eval-cache.hh, not part of the file under verification) is a table from
  (fingerprint, attribute path) to the derivation recorded; \<^verbatim>\<open>getDerivation\<close> looks a
  key up and \<^verbatim>\<open>addDerivation\<close> stores a record under it.
\<close>

type_synonym EvalCache = "string \<times> string \<rightharpoonup> Derivation"

definition cacheGetDerivation :: "EvalCache \<Rightarrow> string \<Rightarrow> string \<Rightarrow> Derivation option" where
  "cacheGetDerivation cache fingerprint attrPath = cache (fingerprint, attrPath)"

definition cacheAddDerivation :: "EvalCache \<Rightarrow> string \<Rightarrow> string \<Rightarrow> Derivation \<Rightarrow> EvalCache" where
  "cacheAddDerivation cache fingerprint attrPath drv = cache((fingerprint, attrPath) \<mapsto> drv)"

record 'w EvalState =
  world :: 'w
  evalCache :: EvalCache
  outputsEvaluated :: nat

text \<open>The cached derivation of an attribute path, when its derivation path is still valid.\<close>

definition validCacheHit ::
  "('ref, 'rf, 'v, 'w) EvalEnv \<Rightarrow> string \<Rightarrow> string \<Rightarrow> 'w EvalState \<Rightarrow> Derivation option" where
  "validCacheHit env fingerprint attrPath st =
     (case cacheGetDerivation (evalCache st) fingerprint attrPath of
        Some drv \<Rightarrow>
          if storeIsValidPath env (world st) (Derivation.drvPath drv) then Some drv else None
      | None \<Rightarrow> None)"

text \<open>\<^verbatim>\<open>if (!vOutputs) vOutputs = getFlakeOutputs(*state, resFlake);\<close>\<close>

definition ensureOutputs ::
  "('ref, 'rf, 'v, 'w) EvalEnv \<Rightarrow> 'ref \<Rightarrow> 'rf \<Rightarrow> 'v option \<Rightarrow> 'w EvalState
     \<Rightarrow> (error + 'v) \<times> 'w EvalState" where
  "ensureOutputs env flakeRef resFlake vOutputs st =
     (case vOutputs of
        Some v \<Rightarrow> (Inr v, st)
      | None \<Rightarrow>
          (case getFlakeOutputs env flakeRef resFlake (world st) of
             (r, w) \<Rightarrow> (r, st\<lparr>world := w, outputsEvaluated := Suc (outputsEvaluated st)\<rparr>)))"

text \<open>The body of the \<^verbatim>\<open>try\<close> block, for one attribute path.\<close>

definition evalAttrPath ::
  "('ref, 'rf, 'v, 'w) EvalEnv \<Rightarrow> string \<Rightarrow> string \<Rightarrow> 'v \<Rightarrow> 'w EvalState
     \<Rightarrow> (error + Derivation) \<times> 'w EvalState" where
  "evalAttrPath env fingerprint attrPath vOutputs st =
     (case findAlongAttrPath env vOutputs attrPath (world st) of
        (Inl e, w) \<Rightarrow> (Inl e, st\<lparr>world := w\<rparr>)
      | (Inr v, w) \<Rightarrow>
          (case getDerivation env v w of
             (Inl e, w') \<Rightarrow> (Inl e, st\<lparr>world := w'\<rparr>)
           | (Inr None, w') \<Rightarrow>
               (Inl (Error ''flake output attribute '%s' is not a derivation'' [ArgStr attrPath]),
                st\<lparr>world := w'\<rparr>)
           | (Inr (Some drv), w') \<Rightarrow>
               (Inr drv,
                st\<lparr>world := w',
                   evalCache := cacheAddDerivation (evalCache st) fingerprint attrPath drv\<rparr>)))"

text \<open>
  The loop of \<^verbatim>\<open>toDerivations\<close> over the candidate attribute paths;
  \<open>vOutputs\<close> is the local variable of that name, \<open>None\<close> for \<^verbatim>\<open>nullptr\<close>.
  Only \<^verbatim>\<open>AttrPathNotFound\<close> is caught.
\<close>

fun attrPathLoop ::
  "('ref, 'rf, 'v, 'w) EvalEnv \<Rightarrow> 'ref \<Rightarrow> 'rf \<Rightarrow> string list \<Rightarrow> string list \<Rightarrow> 'v option
     \<Rightarrow> 'w EvalState \<Rightarrow> (error + Derivation list) \<times> 'w EvalState" where
  "attrPathLoop env flakeRef resFlake attrPaths [] vOutputs st =
     (Inl (Error ''flake '%s' does not provide attribute %s''
             [ArgStr (to_string env flakeRef), ArgQuoted attrPaths]), st)"
| "attrPathLoop env flakeRef resFlake attrPaths (attrPath # rest) vOutputs st =
     (case validCacheHit env (getFingerprint env resFlake) attrPath st of
        Some drv \<Rightarrow> (Inr [drv], st)
      | None \<Rightarrow>
          (case ensureOutputs env flakeRef resFlake vOutputs st of
             (Inl e, st1) \<Rightarrow> (Inl e, st1)
           | (Inr v, st1) \<Rightarrow>
               (case evalAttrPath env (getFingerprint env resFlake) attrPath v st1 of
                  (Inr drv, st2) \<Rightarrow> (Inr [drv], st2)
                | (Inl (AttrPathNotFound m), st2) \<Rightarrow>
                    attrPathLoop env flakeRef resFlake attrPaths rest (Some v) st2
                | (Inl e, st2) \<Rightarrow> (Inl e, st2))))"

text \<open>
  \<^verbatim>\<open>InstallableFlake::toDerivations\<close> for the installable with fields \<open>flakeRef\<close>,
  \<open>attrPaths\<close> and \<open>prefixes\<close>, under the options \<open>opts\<close> of the command.
\<close>

definition toDerivations ::
  "('ref, 'rf, 'v, 'w) EvalEnv \<Rightarrow> MixFlakeOptions \<Rightarrow> 'ref \<Rightarrow> string list \<Rightarrow> string list
     \<Rightarrow> 'w EvalState \<Rightarrow> (error + Derivation list) \<times> 'w EvalState" where
  "toDerivations env opts flakeRef attrPaths prefixes st =
     (case resolveFlake env flakeRef (getLockFileMode opts) (world st) of
        (Inl e, w) \<Rightarrow> (Inl e, st\<lparr>world := w\<rparr>)
      | (Inr resFlake, w) \<Rightarrow>
          (case getActualAttrPaths attrPaths prefixes of
             Inl e \<Rightarrow> (Inl e, st\<lparr>world := w\<rparr>)
           | Inr candidates \<Rightarrow>
               attrPathLoop env flakeRef resFlake attrPaths candidates None (st\<lparr>world := w\<rparr>)))"

text \<open>\<^verbatim>\<open>toBuildables\<close> of a flake installable: the inherited method over \<open>toDerivations\<close>.\<close>

definition toBuildablesFlake ::
  "('ref, 'rf, 'v, 'w) EvalEnv \<Rightarrow> MixFlakeOptions \<Rightarrow> 'ref \<Rightarrow> string list \<Rightarrow> string list
     \<Rightarrow> 'w EvalState \<Rightarrow> (error + Buildable list) \<times> 'w EvalState" where
  "toBuildablesFlake env opts flakeRef attrPaths prefixes st =
     (case toDerivations env opts flakeRef attrPaths prefixes st of
        (r, st') \<Rightarrow> (toBuildablesOf r, st'))"

section \<open>The closure of a resolved flake and its GC root\<close>

text \<open>
  \<^verbatim>\<open>flake::LockedInputs\<close>: a node holds its named inputs, each with the lock data
  \<open>'i\<close> from which \<^verbatim>\<open>computeStorePath\<close> derives the input's store path, and the
  input's own \<^verbatim>\<open>LockedInputs\<close>. The list is the \<^verbatim>\<open>std::map\<close> in iteration order.
\<close>

datatype 'i LockedInputs =
  LockedInputs (inputs: "(string \<times> 'i \<times> 'i LockedInputs) list")

record 'i ResolvedFlake =
  sourceStorePath :: string
  lockFile :: "'i LockedInputs"

fun countNodes :: "'i LockedInputs \<Rightarrow> nat" where
  "countNodes (LockedInputs deps) = Suc (sum_list (map (\<lambda>(n, i, sub). countNodes sub) deps))"

text \<open>
  The queue holds references to nodes. A reference is the node together with its
  address in the lock file: the indices of the inputs followed from the root.
  \<open>scanInputs\<close> is the inner \<^verbatim>\<open>for\<close> loop over the inputs of the node at address
  \<open>p\<close>, \<open>k\<close> counting the inputs already seen.
\<close>

type_synonym 'i NodeRef = "nat list \<times> 'i LockedInputs"

fun scanInputs ::
  "('i \<Rightarrow> string) \<Rightarrow> (string \<Rightarrow> bool) \<Rightarrow> nat list \<Rightarrow> nat
     \<Rightarrow> (string \<times> 'i \<times> 'i LockedInputs) list
     \<Rightarrow> string set \<times> 'i NodeRef list \<Rightarrow> string set \<times> 'i NodeRef list" where
  "scanInputs computeStorePath valid p k [] (closure, queue) = (closure, queue)"
| "scanInputs computeStorePath valid p k ((n, dep, sub) # deps) (closure, queue) =
     (let path = computeStorePath dep
      in scanInputs computeStorePath valid p (Suc k) deps
           (if valid path then insert path closure else closure, queue @ [(p @ [k], sub)]))"

lemma scanInputs_queue:
  "snd (scanInputs csp valid p k deps (c, q)) =
     q @ map (\<lambda>(j, (n, dep, sub)). (p @ [j], sub)) (List.enumerate k deps)"
  by (induction deps arbitrary: k c q) (auto simp: Let_def)

lemma countNodes_children:
  "sum_list (map (\<lambda>(p, t). countNodes t)
      (map (\<lambda>(j, (n, dep, sub)). (p @ [j], sub)) (List.enumerate k deps)))
   = sum_list (map (\<lambda>(n, i, sub). countNodes sub) deps)"
  by (induction deps arbitrary: k) auto

lemma scanInputs_measure:
  assumes "(c', q') = scanInputs csp valid p k deps (c, q)"
  shows "sum_list (map (\<lambda>(p, t). countNodes t) q') =
         sum_list (map (\<lambda>(p, t). countNodes t) q)
         + sum_list (map (\<lambda>(n, i, sub). countNodes sub) deps)"
proof -
  have "q' = snd (scanInputs csp valid p k deps (c, q))"
    using assms by (metis snd_conv)
  then show ?thesis
    by (simp add: scanInputs_queue countNodes_children del: map_map)
qed

text \<open>
  The \<^verbatim>\<open>while\<close> loop over the queue. Besides the closure it returns the addresses of
  the nodes it popped, in order.
\<close>

function closureLoop ::
  "('i \<Rightarrow> string) \<Rightarrow> (string \<Rightarrow> bool) \<Rightarrow> 'i NodeRef list \<Rightarrow> string set \<Rightarrow> nat list list
     \<Rightarrow> string set \<times> nat list list" where
  "closureLoop computeStorePath valid [] closure visited = (closure, visited)"
| "closureLoop computeStorePath valid ((p, flake) # queue) closure visited =
     (case scanInputs computeStorePath valid p 0 (inputs flake) (closure, queue) of
        (closure', queue') \<Rightarrow>
          closureLoop computeStorePath valid queue' closure' (visited @ [p]))"
  by pat_completeness auto
termination
  apply (relation "measure (\<lambda>(csp, valid, queue, closure, visited).
                      sum_list (map (\<lambda>(p, t). countNodes t) queue))")
   apply simp
  subgoal for csp valid p flake queue closure visited closure' queue'
    using scanInputs_measure[of closure' queue' csp valid p 0 "inputs flake" closure queue]
    by (cases flake) simp
  done

text \<open>
  The store and the file system, as far as the GC-root builder touches them: the valid
  paths, the text objects added, the symlinks, the indirect roots and the directories
  created.
\<close>

record StoreState =
  validPaths :: "string set"
  textObjects :: "string \<rightharpoonup> string \<times> string set"
  symlinks :: "string \<rightharpoonup> string"
  indirectRoots :: "string set"
  directories :: "string set"

text \<open>
  What the builder takes from its collaborators: whether a reference is a path
  (\<^verbatim>\<open>std::get_if<FlakeRef::IsPath>\<close>), \<^verbatim>\<open>FlakeRef::to_string\<close>,
  \<^verbatim>\<open>LockedInput::computeStorePath\<close>, the store path that \<^verbatim>\<open>addTextToStore\<close>
  gives to a name, a content and a set of references, and \<^verbatim>\<open>getCacheDir()\<close>.
\<close>

record ('ref, 'i) GCEnv =
  isPath :: "'ref \<Rightarrow> bool"
  refToString :: "'ref \<Rightarrow> string"
  computeStorePath :: "'i \<Rightarrow> string"
  makeTextPath :: "string \<Rightarrow> string \<Rightarrow> string set \<Rightarrow> string"
  getCacheDir :: string

definition isValidPath :: "StoreState \<Rightarrow> string \<Rightarrow> bool" where
  "isValidPath store path = (path \<in> validPaths store)"

definition addTextToStore ::
  "('ref, 'i) GCEnv \<Rightarrow> string \<Rightarrow> string \<Rightarrow> string set \<Rightarrow> StoreState \<Rightarrow> string \<times> StoreState" where
  "addTextToStore env name s references store =
     (let path = makeTextPath env name s references
      in (path, store\<lparr>validPaths := insert path (validPaths store),
                       textObjects := (textObjects store)(path \<mapsto> (s, references))\<rparr>))"

definition createDirs :: "string \<Rightarrow> StoreState \<Rightarrow> StoreState" where
  "createDirs path store = store\<lparr>directories := insert path (directories store)\<rparr>"

definition replaceSymlink :: "string \<Rightarrow> string \<Rightarrow> StoreState \<Rightarrow> StoreState" where
  "replaceSymlink target link store = store\<lparr>symlinks := (symlinks store)(link \<mapsto> target)\<rparr>"

definition addIndirectRoot :: "string \<Rightarrow> StoreState \<Rightarrow> StoreState" where
  "addIndirectRoot path store = store\<lparr>indirectRoots := insert path (indirectRoots store)\<rparr>"

text \<open>The three replacements applied to the reference's string form, in the code's order.\<close>

definition closureSymlinkName :: "string \<Rightarrow> string" where
  "closureSymlinkName s0 =
     (let s = replaceStrings s0 ''%'' ''%25'';
          s = replaceStrings s ''/'' ''%2f'';
          s = replaceStrings s '':'' ''%3a''
      in s)"

text \<open>
  How a call of \<^verbatim>\<open>makeFlakeClosureGCRoot\<close> left: by the first \<^verbatim>\<open>return\<close> (a path
  reference), by the second (\<^verbatim>\<open>closure.empty()\<close>), or at its end, having written the
  closure file and the symlink (\<open>RootWritten closurePath symlink\<close>).
\<close>

datatype GCRootOutcome =
    ReturnedForPath
  | ReturnedForEmptyClosure
  | RootWritten string string

text \<open>
  The closure of \<^verbatim>\<open>makeFlakeClosureGCRoot\<close> when the queue has run empty, with the
  addresses of the nodes visited.
\<close>

definition flakeClosure ::
  "('ref, 'i) GCEnv \<Rightarrow> StoreState \<Rightarrow> 'i ResolvedFlake \<Rightarrow> string set \<times> nat list list" where
  "flakeClosure env store resFlake =
     closureLoop (computeStorePath env) (isValidPath store) [([], lockFile resFlake)]
       {sourceStorePath resFlake} []"

text \<open>
  \<^verbatim>\<open>makeFlakeClosureGCRoot\<close>. \<^verbatim>\<open>s[0]\<close> of an empty string is the terminating
  zero, so the second assertion holds for it. The set \<^verbatim>\<open>closure\<close> is written in
  the order of \<^verbatim>\<open>std::set\<close>.
\<close>

definition makeFlakeClosureGCRoot ::
  "('ref, 'i) GCEnv \<Rightarrow> StoreState \<Rightarrow> 'ref \<Rightarrow> 'i ResolvedFlake
     \<Rightarrow> error + GCRootOutcome \<times> StoreState" where
  "makeFlakeClosureGCRoot env store origFlakeRef resFlake =
     (if isPath env origFlakeRef then Inr (ReturnedForPath, store)
      else if \<not> isValidPath store (sourceStorePath resFlake)
      then Inl (AssertionFailure ''store.isValidPath(resFlake.flake.sourceInfo.storePath)'')
      else
        (let closure = fst (flakeClosure env store resFlake)
         in if closure = {} then Inr (ReturnedForEmptyClosure, store)
            else
              (case addTextToStore env ''flake-closure''
                      (concatStringsSep '' '' (sorted_list_of_set closure)) closure store of
                 (closurePath, store1) \<Rightarrow>
                   (let cacheDir = getCacheDir env @ ''/nix/flake-closures'';
                        store2 = createDirs cacheDir store1;
                        s = refToString env origFlakeRef
                    in if (case s of [] \<Rightarrow> False | c # _ \<Rightarrow> c = CHR ''.'')
                       then Inl (AssertionFailure ''s[0] != .'')
                       else
                         (let symlink = cacheDir @ ''/'' @ closureSymlinkName s;
                              store3 = replaceSymlink closurePath symlink store2;
                              store4 = addIndirectRoot symlink store3
                          in Inr (RootWritten closurePath symlink, store4))))))"

section \<open>Building and store paths\<close>

datatype RealiseMode = Build | NoBuild | DryRun

text \<open>
  An installable \<open>'inst\<close> is used through its virtual methods \<^verbatim>\<open>toBuildables()\<close>
  and \<^verbatim>\<open>what()\<close>. The other fields are the effects on the world \<open>'w\<close>: setting
  \<^verbatim>\<open>settings.readOnlyMode\<close>, \<^verbatim>\<open>printMissing\<close> and \<^verbatim>\<open>Store::buildPaths\<close>,
  the last two with the exception they may throw.
\<close>

record ('inst, 'w) BuildEnv =
  toBuildables :: "'inst \<Rightarrow> 'w \<Rightarrow> (error + Buildable list) \<times> 'w"
  whatOf :: "'inst \<Rightarrow> error + string"
  setReadOnlyMode :: "'w \<Rightarrow> 'w"
  printMissing :: "string set \<Rightarrow> 'w \<Rightarrow> error option \<times> 'w"
  buildPaths :: "string set \<Rightarrow> 'w \<Rightarrow> error option \<times> 'w"

text \<open>
  What one buildable adds to \<^verbatim>\<open>pathsToBuild\<close>: the derivation with its output names,
  which a \<^verbatim>\<open>StringSet\<close> holds in order, or else the output paths.
\<close>

definition pathsRequested :: "Buildable \<Rightarrow> string set" where
  "pathsRequested b =
     (if Buildable.drvPath b \<noteq> ''''
      then {Buildable.drvPath b @ ''!''
              @ concatStringsSep '','' (sorted_list_of_set (dom (outputs b)))}
      else ran (outputs b))"

text \<open>The loop of \<^verbatim>\<open>build\<close> over the installables; the state is \<^verbatim>\<open>(buildables, pathsToBuild)\<close>.\<close>

fun buildLoop ::
  "('inst, 'w) BuildEnv \<Rightarrow> 'inst list \<Rightarrow> Buildable list \<times> string set \<Rightarrow> 'w
     \<Rightarrow> (error + Buildable list \<times> string set) \<times> 'w" where
  "buildLoop env [] acc w = (Inr acc, w)"
| "buildLoop env (i # installables) (buildables, pathsToBuild) w =
     (case toBuildables env i w of
        (Inl e, w') \<Rightarrow> (Inl e, w')
      | (Inr bs, w') \<Rightarrow>
          buildLoop env installables
            (foldl (\<lambda>(buildables, pathsToBuild) b.
                      (buildables @ [b], pathsToBuild \<union> pathsRequested b))
               (buildables, pathsToBuild) bs) w')"

definition build ::
  "('inst, 'w) BuildEnv \<Rightarrow> RealiseMode \<Rightarrow> 'inst list \<Rightarrow> 'w \<Rightarrow> (error + Buildable list) \<times> 'w" where
  "build env mode installables w0 =
     (let w1 = (if mode \<noteq> Build then setReadOnlyMode env w0 else w0)
      in case buildLoop env installables ([], {}) w1 of
           (Inl e, w2) \<Rightarrow> (Inl e, w2)
         | (Inr (buildables, pathsToBuild), w2) \<Rightarrow>
             (case (if mode = DryRun then printMissing env pathsToBuild w2
                    else if mode = Build then buildPaths env pathsToBuild w2
                    else (None, w2)) of
                (Some e, w3) \<Rightarrow> (Inl e, w3)
              | (None, w3) \<Rightarrow> (Inr buildables, w3)))"

definition toStorePaths ::
  "('inst, 'w) BuildEnv \<Rightarrow> RealiseMode \<Rightarrow> 'inst list \<Rightarrow> 'w \<Rightarrow> (error + string set) \<times> 'w" where
  "toStorePaths env mode installables w =
     (case build env mode installables w of
        (Inl e, w') \<Rightarrow> (Inl e, w')
      | (Inr buildables, w') \<Rightarrow>
          (Inr (foldl (\<lambda>outPaths b. outPaths \<union> ran (outputs b)) {} buildables), w'))"

text \<open>\<^verbatim>\<open>toStorePath\<close>; \<^verbatim>\<open>*paths.begin()\<close> is the least path of the set.\<close>

definition toStorePath ::
  "('inst, 'w) BuildEnv \<Rightarrow> RealiseMode \<Rightarrow> 'inst \<Rightarrow> 'w \<Rightarrow> (error + string) \<times> 'w" where
  "toStorePath env mode installable w =
     (case toStorePaths env mode [installable] w of
        (Inl e, w') \<Rightarrow> (Inl e, w')
      | (Inr paths, w') \<Rightarrow>
          if card paths \<noteq> 1
          then (case whatOf env installable of
                  Inl e \<Rightarrow> (Inl e, w')
                | Inr name \<Rightarrow>
                    (Inl (Error ''argument '%s' should evaluate to one store path''
                            [ArgStr name]), w'))
          else (Inr (Min paths), w'))"

text \<open>The arguments an error was formatted with.\<close>

fun errorArgs :: "error \<Rightarrow> fmtArg list" where
  "errorArgs (Error fmt args) = args"
| "errorArgs e = []"

section \<open>Reference definitions and example inputs\<close>

text \<open>
  The encoding of the symlink name as the specification words it, character by
  character: \<open>%\<close> becomes \<open>%25\<close>, \<open>/\<close> becomes \<open>%2f\<close>, \<open>:\<close> becomes \<open>%3a\<close>,
  every other character stays. It is compared with \<open>closureSymlinkName\<close> below.
\<close>

definition specPercentEncode :: "char \<Rightarrow> string" where
  "specPercentEncode c =
     (if c = CHR ''%'' then ''%25''
      else if c = CHR ''/'' then ''%2f''
      else if c = CHR '':'' then ''%3a''
      else [c])"

text \<open>
  The buildable that the first loop of \<^verbatim>\<open>toBuildables\<close> makes of one derivation: its
  derivation path and the single output named by it.
\<close>

definition buildableOf :: "Derivation \<Rightarrow> Buildable" where
  "buildableOf drv =
     \<lparr>Buildable.drvPath = Derivation.drvPath drv, outputs = [outputName drv \<mapsto> outPath drv]\<rparr>"

text \<open>
  A parser environment: \<open>./dir\<close> is a local path that is no flake, \<open>nixpkgs\<close> is a
  flake reference, \<open>./result\<close> is a link into the store, and nothing else parses.
\<close>

definition exampleParseEnv :: "(string, unit) ParseEnv" where
  "exampleParseEnv =
     \<lparr>fileArg = None,
      evalFile = (\<lambda>f. Inl (EvalError f)),
      newFlakeRef = (\<lambda>s allowRelative.
         if s = ''./dir'' \<or> s = ''./my:dir'' \<or> s = ''./link'' then Inl (MissingFlake s)
         else if s = ''nixpkgs'' \<or> s = ''./my'' then Inr s
         else Inl (BadFlakeRef s)),
      followLinksToStorePath = (\<lambda>s.
         if s = ''./result'' \<or> s = ''./link'' then Inr ''/nix/store/abc-hello''
         else Inl (NotInStore s)),
      getDefaultFlakeAttrPaths = [''defaultPackage''],
      getDefaultFlakeAttrPathPrefixes = [''packages.'']\<rparr>"

text \<open>
  A build environment over installables named by strings: \<open>hello\<close> has a derivation
  with the two outputs \<open>out\<close> and \<open>dev\<close>, \<open>/nix/store/p\<close> is a store path, and
  nothing else evaluates.
\<close>

definition exampleBuildEnv :: "(string, unit) BuildEnv" where
  "exampleBuildEnv =
     \<lparr>toBuildables = (\<lambda>i w.
         if i = ''hello''
         then (Inr [\<lparr>Buildable.drvPath = ''/nix/store/h.drv'',
                      outputs = [''out'' \<mapsto> ''/nix/store/h'', ''dev'' \<mapsto> ''/nix/store/h-dev'']\<rparr>], w)
         else if i = ''/nix/store/p''
         then (Inr [\<lparr>Buildable.drvPath = '''', outputs = [''out'' \<mapsto> ''/nix/store/p'']\<rparr>], w)
         else (Inl (EvalError i), w)),
      whatOf = (\<lambda>i. Inr i),
      setReadOnlyMode = (\<lambda>w. w),
      printMissing = (\<lambda>paths w. (None, w)),
      buildPaths = (\<lambda>paths w. (None, w))\<rparr>"

text \<open>
  The lock data of all inputs below a node, direct and indirect, in the order of a
  depth-first walk.
\<close>

fun transitiveInputs :: "'i LockedInputs \<Rightarrow> 'i list" where
  "transitiveInputs (LockedInputs deps) =
     concat (map (\<lambda>(n, dep, sub). dep # transitiveInputs sub) deps)"

text \<open>
  The addresses of all nodes of the lock file below (and including) the node at address
  \<open>p\<close>; \<open>addressesFrom p k deps\<close> are those below the inputs \<open>deps\<close>, the first
  of which is input number \<open>k\<close> of the node at \<open>p\<close>.
\<close>

fun addresses :: "nat list \<Rightarrow> 'i LockedInputs \<Rightarrow> nat list list"
  and addressesFrom :: "nat list \<Rightarrow> nat \<Rightarrow> (string \<times> 'i \<times> 'i LockedInputs) list \<Rightarrow> nat list list" where
  "addresses p (LockedInputs deps) = p # addressesFrom p 0 deps"
| "addressesFrom p k [] = []"
| "addressesFrom p k ((n, dep, sub) # deps) = addresses (p @ [k]) sub @ addressesFrom p (Suc k) deps"

text \<open>
  The locked input at an address of the lock file: its lock data and its own inputs.
  The root, at the empty address, is the lock file itself and no input.
\<close>

fun inputAt :: "'i LockedInputs \<Rightarrow> nat list \<Rightarrow> ('i \<times> 'i LockedInputs) option" where
  "inputAt t [] = None"
| "inputAt (LockedInputs deps) [k] = (if k < length deps then Some (snd (deps ! k)) else None)"
| "inputAt (LockedInputs deps) (k # k' # p) =
     (if k < length deps then inputAt (snd (snd (deps ! k))) (k' # p) else None)"

text \<open>The store paths computed from the lock data \<open>D\<close> that are valid.\<close>

definition validStorePaths :: "('i \<Rightarrow> string) \<Rightarrow> (string \<Rightarrow> bool) \<Rightarrow> 'i set \<Rightarrow> string set" where
  "validStorePaths csp valid D = {x \<in> csp ` D. valid x}"

text \<open>
  A store with a flake source and one of its two inputs present, and a flake whose
  lock file has four nodes: the root, \<open>nixpkgs\<close>, \<open>utils\<close>, and the
  \<open>nixpkgs\<close> input of \<open>utils\<close>. References beginning with a dot or a slash are
  paths.
\<close>

definition exampleGCEnv :: "(string, string) GCEnv" where
  "exampleGCEnv =
     \<lparr>isPath = (\<lambda>r. take 1 r = ''.'' \<or> take 1 r = ''/''),
      refToString = (\<lambda>r. r),
      computeStorePath = (\<lambda>i. ''/nix/store/'' @ i),
      makeTextPath = (\<lambda>name s references. ''/nix/store/'' @ name),
      getCacheDir = ''/home/user/.cache''\<rparr>"

definition exampleStore :: StoreState where
  "exampleStore =
     \<lparr>validPaths = {''/nix/store/src'', ''/nix/store/a''},
      textObjects = Map.empty,
      symlinks = Map.empty,
      indirectRoots = {},
      directories = {}\<rparr>"

definition exampleFlake :: "string ResolvedFlake" where
  "exampleFlake =
     \<lparr>sourceStorePath = ''/nix/store/src'',
      lockFile = LockedInputs
        [(''nixpkgs'', ''a'', LockedInputs []),
         (''utils'', ''b'', LockedInputs [(''nixpkgs'', ''a'', LockedInputs [])])]\<rparr>"

text \<open>
  What the theorems on flake installables assume of the collaborators, for every world
  they may be called in: the flake resolves to \<open>resFlake\<close>; its outputs evaluate to
  \<open>v\<close>; an attribute path is absent from \<open>v\<close> (the lookup throws
  \<^verbatim>\<open>AttrPathNotFound\<close>), denotes the derivation \<open>drv\<close>, or denotes a value that is
  no derivation; the cache has no entry for an attribute path, or one whose derivation
  path is not valid.
\<close>

definition resolvesTo ::
  "('ref, 'rf, 'v, 'w) EvalEnv \<Rightarrow> 'ref \<Rightarrow> HandleLockFile \<Rightarrow> 'rf \<Rightarrow> bool" where
  "resolvesTo env flakeRef mode resFlake =
     (\<forall>w. \<exists>w'. resolveFlake env flakeRef mode w = (Inr resFlake, w'))"

definition outputsAre :: "('ref, 'rf, 'v, 'w) EvalEnv \<Rightarrow> 'ref \<Rightarrow> 'rf \<Rightarrow> 'v \<Rightarrow> bool" where
  "outputsAre env flakeRef resFlake v =
     (\<forall>w. \<exists>w'. getFlakeOutputs env flakeRef resFlake w = (Inr v, w'))"

definition attrAbsent :: "('ref, 'rf, 'v, 'w) EvalEnv \<Rightarrow> 'v \<Rightarrow> string \<Rightarrow> bool" where
  "attrAbsent env v attrPath =
     (\<forall>w. \<exists>m w'. findAlongAttrPath env v attrPath w = (Inl (AttrPathNotFound m), w'))"

definition attrIsDerivation ::
  "('ref, 'rf, 'v, 'w) EvalEnv \<Rightarrow> 'v \<Rightarrow> string \<Rightarrow> Derivation \<Rightarrow> bool" where
  "attrIsDerivation env v attrPath drv =
     (\<forall>w. \<exists>va w'. findAlongAttrPath env v attrPath w = (Inr va, w')
                   \<and> (\<forall>w1. \<exists>w2. getDerivation env va w1 = (Inr (Some drv), w2)))"

definition attrIsNoDerivation :: "('ref, 'rf, 'v, 'w) EvalEnv \<Rightarrow> 'v \<Rightarrow> string \<Rightarrow> bool" where
  "attrIsNoDerivation env v attrPath =
     (\<forall>w. \<exists>va w'. findAlongAttrPath env v attrPath w = (Inr va, w')
                   \<and> (\<forall>w1. \<exists>w2. getDerivation env va w1 = (Inr None, w2)))"

definition noValidHit ::
  "('ref, 'rf, 'v, 'w) EvalEnv \<Rightarrow> EvalCache \<Rightarrow> string \<Rightarrow> string \<Rightarrow> bool" where
  "noValidHit env cache fingerprint attrPath =
     (case cache (fingerprint, attrPath) of
        None \<Rightarrow> True
      | Some drv \<Rightarrow> \<forall>w. \<not> storeIsValidPath env w (Derivation.drvPath drv))"

text \<open>
  The world in which the loop of \<^verbatim>\<open>toDerivations\<close> looks the cache up for the
  candidate that follows the absent candidates \<open>pre\<close>. \<open>skipWorld\<close> follows the
  lookups of the candidates of \<open>pre\<close> in the outputs \<open>v\<close>; \<open>lookupWorld\<close> starts
  where the loop starts, with the outputs not yet evaluated; \<open>worldAtLookup\<close> starts
  where the resolution starts, with the call of \<^verbatim>\<open>resolveFlake\<close>.
\<close>

fun skipWorld :: "('ref, 'rf, 'v, 'w) EvalEnv \<Rightarrow> 'v \<Rightarrow> string list \<Rightarrow> 'w \<Rightarrow> 'w" where
  "skipWorld env v [] w = w"
| "skipWorld env v (c # cs) w = skipWorld env v cs (snd (findAlongAttrPath env v c w))"

definition lookupWorld ::
  "('ref, 'rf, 'v, 'w) EvalEnv \<Rightarrow> 'ref \<Rightarrow> 'rf \<Rightarrow> 'v \<Rightarrow> string list \<Rightarrow> 'w \<Rightarrow> 'w" where
  "lookupWorld env flakeRef resFlake v pre w =
     (if pre = [] then w
      else skipWorld env v pre (snd (getFlakeOutputs env flakeRef resFlake w)))"

definition worldAtLookup ::
  "('ref, 'rf, 'v, 'w) EvalEnv \<Rightarrow> MixFlakeOptions \<Rightarrow> 'ref \<Rightarrow> 'rf \<Rightarrow> 'v \<Rightarrow> string list
     \<Rightarrow> 'w \<Rightarrow> 'w" where
  "worldAtLookup env opts flakeRef resFlake v pre w =
     lookupWorld env flakeRef resFlake v pre
       (snd (resolveFlake env flakeRef (getLockFileMode opts) w))"

text \<open>
  An evaluator whose flake \<open>nixpkgs\<close> has the outputs \<open>hello\<close> and
  \<open>legacyPackages.hello\<close>, both derivations, and \<open>lib\<close>, which is none. The world
  counts the calls made, and the two derivation paths are valid throughout.
  \<open>coldState\<close> has an empty cache.
\<close>

definition helloDrv :: Derivation where
  "helloDrv = Derivation ''/nix/store/hello.drv'' ''/nix/store/hello'' ''out''"

definition legacyDrv :: Derivation where
  "legacyDrv = Derivation ''/nix/store/hello-legacy.drv'' ''/nix/store/hello-legacy'' ''out''"

definition exampleEvalEnv :: "(string, string, string, nat) EvalEnv" where
  "exampleEvalEnv =
     \<lparr>to_string = (\<lambda>r. r),
      resolveFlake = (\<lambda>r mode w. (Inr ''fingerprint-1'', Suc w)),
      getFingerprint = (\<lambda>rf. rf),
      storeIsValidPath = (\<lambda>w p. p = ''/nix/store/hello.drv'' \<or> p = ''/nix/store/hello-legacy.drv''),
      getFlakeOutputs = (\<lambda>r rf w. (Inr ''outputs'', Suc w)),
      findAlongAttrPath = (\<lambda>v a w.
         if a = ''legacyPackages.hello'' \<or> a = ''hello'' \<or> a = ''lib''
         then (Inr a, Suc w) else (Inl (AttrPathNotFound a), Suc w)),
      getDerivation = (\<lambda>v w.
         if v = ''hello'' then (Inr (Some helloDrv), Suc w)
         else if v = ''legacyPackages.hello'' then (Inr (Some legacyDrv), Suc w)
         else (Inr None, Suc w))\<rparr>"

definition exampleOpts :: MixFlakeOptions where
  "exampleOpts = \<lparr>recreateLockFile = False, saveLockFile = True, useRegistries = True\<rparr>"

definition coldState :: "nat EvalState" where
  "coldState = \<lparr>world = 0, evalCache = Map.empty, outputsEvaluated = 0\<rparr>"

text \<open>
  The same flake over a world that is the set of valid store paths: a path is valid
  when it is in the set, and the derivation of \<open>hello\<close> is written to the store when
  the attribute is evaluated. \<open>collectedState\<close> has a cache entry for \<open>hello\<close> and
  an empty store, as after a garbage collection.
\<close>

definition storeEvalEnv :: "(string, string, string, string set) EvalEnv" where
  "storeEvalEnv =
     \<lparr>to_string = (\<lambda>r. r),
      resolveFlake = (\<lambda>r mode w. (Inr ''fingerprint-1'', w)),
      getFingerprint = (\<lambda>rf. rf),
      storeIsValidPath = (\<lambda>w p. p \<in> w),
      getFlakeOutputs = (\<lambda>r rf w. (Inr ''outputs'', w)),
      findAlongAttrPath = (\<lambda>v a w.
         if a = ''hello'' then (Inr a, w) else (Inl (AttrPathNotFound a), w)),
      getDerivation = (\<lambda>v w.
         if v = ''hello'' then (Inr (Some helloDrv), insert ''/nix/store/hello.drv'' w)
         else (Inr None, w))\<rparr>"

definition collectedState :: "string set EvalState" where
  "collectedState =
     \<lparr>world = {},
      evalCache = [(''fingerprint-1'', ''hello'') \<mapsto> helloDrv],
      outputsEvaluated = 0\<rparr>"

section \<open>Lock-file mode: the decision table\<close>

text \<open>
  C4. \<^verbatim>\<open>getLockFileMode\<close> follows the fixed table: without registries the mode is
  \<^verbatim>\<open>AllPure\<close> whatever the other two flags are; with registries the pair
  (recreateLockFile, saveLockFile) selects RecreateLockFile, UseNewLockFile,
  UpdateLockFile or UseUpdatedLockFile.
\<close>

theorem getLockFileMode_table:
  "getLockFileMode \<lparr>recreateLockFile = r, saveLockFile = s, useRegistries = False\<rparr> = AllPure
   \<and> getLockFileMode \<lparr>recreateLockFile = True, saveLockFile = True, useRegistries = True\<rparr> = RecreateLockFile
   \<and> getLockFileMode \<lparr>recreateLockFile = True, saveLockFile = False, useRegistries = True\<rparr> = UseNewLockFile
   \<and> getLockFileMode \<lparr>recreateLockFile = False, saveLockFile = True, useRegistries = True\<rparr> = UpdateLockFile
   \<and> getLockFileMode \<lparr>recreateLockFile = False, saveLockFile = False, useRegistries = True\<rparr> = UseUpdatedLockFile"
  by (simp add: getLockFileMode_def)


section \<open>The parser: expressions first\<close>

text \<open>
  C5. Without the file option, a string that begins with \<open>(\<close> is parsed as an
  expression installable whose \<^verbatim>\<open>what()\<close> is the string itself, whatever the
  collaborators would make of the string as a flake reference or a path: alone, through
  \<^verbatim>\<open>parseInstallable\<close>, and at the head of a list, where the rest of the list
  decides only whether the call fails.
\<close>

theorem paren_parses_as_expression:
  "parseInstallableString env (CHR ''('' # rest) = Inr (InstallableExpr (CHR ''('' # rest))
   \<and> parseInstallable (env\<lparr>fileArg := None\<rparr>) (CHR ''('' # rest)
       = Inr (InstallableExpr (CHR ''('' # rest))
   \<and> parseInstallables (env\<lparr>fileArg := None\<rparr>) ((CHR ''('' # rest) # ss)
       = (case parseInstallables (env\<lparr>fileArg := None\<rparr>) ss of
            Inl e \<Rightarrow> Inl e
          | Inr result \<Rightarrow> Inr (InstallableExpr (CHR ''('' # rest) # result))
   \<and> what ts (InstallableExpr (CHR ''('' # rest)) = Inr (CHR ''('' # rest)"
  by (simp add: parseInstallableString_def parseInstallable_def parseInstallables_def)

section \<open>The parser: failures of the flake reference\<close>

lemma rfind_None_iff: "rfind c s = None \<longleftrightarrow> c \<notin> set s"
  by (induction s) (auto split: option.splits)

lemma rfind_last: "c \<notin> set attrPath \<Longrightarrow> rfind c (ref @ c # attrPath) = Some (length ref)"
proof (induction ref)
  case Nil
  then have "rfind c attrPath = None" by (simp add: rfind_None_iff)
  then show ?case by simp
next
  case (Cons x ref)
  then show ?case by simp
qed

text \<open>
  C6. Let \<open>s\<close> neither begin with \<open>(\<close> nor with \<open>nixpkgs.\<close>, and let
  \<^verbatim>\<open>FlakeRef(s, true)\<close> throw \<^verbatim>\<open>MissingFlake\<close> or \<^verbatim>\<open>BadFlakeRef\<close>. In both cases
  parsing goes on with the rules that follow. A string \<open>ref:attrPath\<close>, split at its
  last colon, becomes the flake installable of \<open>ref\<close> with the attribute path and the
  default prefixes (or fails as \<^verbatim>\<open>FlakeRef(ref, true)\<close> fails); a \<^verbatim>\<open>MissingFlake\<close>
  remembered for \<open>s\<close> is not raised then. A string without a colon and with a slash
  that leads into the store becomes a store-path installable. A string without a
  colon that has no slash or does not lead into the store raises the remembered
  \<^verbatim>\<open>MissingFlake\<close>, and after \<^verbatim>\<open>BadFlakeRef\<close> the error "unsupported argument".
\<close>

theorem flakeRef_failure_falls_through:
  assumes "take 1 s \<noteq> ''(''" and "\<not> hasPrefix s ''nixpkgs.''"
  shows "(newFlakeRef env s True = Inl (MissingFlake m)
            \<and> s = ref @ CHR '':'' # attrPath \<and> CHR '':'' \<notin> set attrPath
          \<longrightarrow> parseInstallableString env s
                = (case newFlakeRef env ref True of
                     Inl e \<Rightarrow> Inl e
                   | Inr r \<Rightarrow> Inr (InstallableFlake r [attrPath]
                                    (getDefaultFlakeAttrPathPrefixes env))))
       \<and> (newFlakeRef env s True = Inl (BadFlakeRef m)
            \<and> s = ref @ CHR '':'' # attrPath \<and> CHR '':'' \<notin> set attrPath
          \<longrightarrow> parseInstallableString env s
                = (case newFlakeRef env ref True of
                     Inl e \<Rightarrow> Inl e
                   | Inr r \<Rightarrow> Inr (InstallableFlake r [attrPath]
                                    (getDefaultFlakeAttrPathPrefixes env))))
       \<and> (newFlakeRef env s True = Inl (MissingFlake m) \<and> CHR '':'' \<notin> set s
            \<and> CHR ''/'' \<in> set s \<and> followLinksToStorePath env s = Inr p
          \<longrightarrow> parseInstallableString env s = Inr (InstallableStorePath p))
       \<and> (newFlakeRef env s True = Inl (BadFlakeRef m) \<and> CHR '':'' \<notin> set s
            \<and> CHR ''/'' \<in> set s \<and> followLinksToStorePath env s = Inr p
          \<longrightarrow> parseInstallableString env s = Inr (InstallableStorePath p))
       \<and> (newFlakeRef env s True = Inl (MissingFlake m) \<and> CHR '':'' \<notin> set s
            \<and> (CHR ''/'' \<notin> set s \<or> followLinksToStorePath env s = Inl (NotInStore n))
          \<longrightarrow> parseInstallableString env s = Inl (MissingFlake m))
       \<and> (newFlakeRef env s True = Inl (BadFlakeRef m) \<and> CHR '':'' \<notin> set s
            \<and> (CHR ''/'' \<notin> set s \<or> followLinksToStorePath env s = Inl (NotInStore n))
          \<longrightarrow> parseInstallableString env s
                = Inl (Error (''unsupported argument '%s'' @ [CHR 0x27]) [ArgStr s]))"
proof -
  have colon: "parseInstallableString env s
                = (case newFlakeRef env ref True of
                     Inl e \<Rightarrow> Inl e
                   | Inr r \<Rightarrow> Inr (InstallableFlake r [attrPath]
                                    (getDefaultFlakeAttrPathPrefixes env)))"
    if f: "tryFlakeRef env s = Inr (Inl flakeEx)"
      and s: "s = ref @ CHR '':'' # attrPath" and a: "CHR '':'' \<notin> set attrPath" for flakeEx
  proof -
    have r: "rfind CHR '':'' s = Some (length ref)"
      unfolding s using a by (rule rfind_last)
    have t: "take (length ref) s = ref" and d: "drop (length ref + 1) s = attrPath"
      unfolding s by simp_all
    have "parseInstallableString env s
            = (case newFlakeRef env (take (length ref) s) True of
                 Inl e \<Rightarrow> Inl e
               | Inr r \<Rightarrow> Inr (InstallableFlake r [drop (length ref + 1) s]
                                (getDefaultFlakeAttrPathPrefixes env)))"
      using assms f by (simp add: parseInstallableString_def r)
    then show ?thesis
      unfolding t d .
  qed
  have nocolon: "parseInstallableString env s
      = (if CHR ''/'' \<in> set s
         then (case follow env s of
                 Inl e \<Rightarrow> Inl e
               | Inr (Some storePath) \<Rightarrow> Inr (InstallableStorePath storePath)
               | Inr None \<Rightarrow> Inl (rethrowOrUnsupported flakeEx s))
         else Inl (rethrowOrUnsupported flakeEx s))"
    if f: "tryFlakeRef env s = Inr (Inl flakeEx)" and n: "CHR '':'' \<notin> set s" for flakeEx
  proof -
    have "rfind CHR '':'' s = None" using n by (simp add: rfind_None_iff)
    then show ?thesis using assms f by (simp add: parseInstallableString_def)
  qed
  have missing: "tryFlakeRef env s = Inr (Inl (Some (MissingFlake m)))"
    if "newFlakeRef env s True = Inl (MissingFlake m)"
    using that by (simp add: tryFlakeRef_def)
  have bad: "tryFlakeRef env s = Inr (Inl None)"
    if "newFlakeRef env s True = Inl (BadFlakeRef m)"
    using that by (simp add: tryFlakeRef_def)
  show ?thesis
  proof (intro conjI impI)
    assume h: "newFlakeRef env s True = Inl (MissingFlake m)
                 \<and> s = ref @ CHR '':'' # attrPath \<and> CHR '':'' \<notin> set attrPath"
    show "parseInstallableString env s
                = (case newFlakeRef env ref True of
                     Inl e \<Rightarrow> Inl e
                   | Inr r \<Rightarrow> Inr (InstallableFlake r [attrPath]
                                    (getDefaultFlakeAttrPathPrefixes env)))"
      using colon[OF missing] h by blast
  next
    assume h: "newFlakeRef env s True = Inl (BadFlakeRef m)
                 \<and> s = ref @ CHR '':'' # attrPath \<and> CHR '':'' \<notin> set attrPath"
    show "parseInstallableString env s
                = (case newFlakeRef env ref True of
                     Inl e \<Rightarrow> Inl e
                   | Inr r \<Rightarrow> Inr (InstallableFlake r [attrPath]
                                    (getDefaultFlakeAttrPathPrefixes env)))"
      using colon[OF bad] h by blast
  next
    assume h: "newFlakeRef env s True = Inl (MissingFlake m) \<and> CHR '':'' \<notin> set s
                 \<and> CHR ''/'' \<in> set s \<and> followLinksToStorePath env s = Inr p"
    then show "parseInstallableString env s = Inr (InstallableStorePath p)"
      using nocolon[OF missing] by (simp add: follow_def)
  next
    assume h: "newFlakeRef env s True = Inl (BadFlakeRef m) \<and> CHR '':'' \<notin> set s
                 \<and> CHR ''/'' \<in> set s \<and> followLinksToStorePath env s = Inr p"
    then show "parseInstallableString env s = Inr (InstallableStorePath p)"
      using nocolon[OF bad] by (simp add: follow_def)
  next
    assume h: "newFlakeRef env s True = Inl (MissingFlake m) \<and> CHR '':'' \<notin> set s
                 \<and> (CHR ''/'' \<notin> set s \<or> followLinksToStorePath env s = Inl (NotInStore n))"
    then show "parseInstallableString env s = Inl (MissingFlake m)"
      using nocolon[OF missing] by (auto simp: follow_def rethrowOrUnsupported_def)
  next
    assume h: "newFlakeRef env s True = Inl (BadFlakeRef m) \<and> CHR '':'' \<notin> set s
                 \<and> (CHR ''/'' \<notin> set s \<or> followLinksToStorePath env s = Inl (NotInStore n))"
    then show "parseInstallableString env s
                = Inl (Error (''unsupported argument '%s'' @ [CHR 0x27]) [ArgStr s])"
      using nocolon[OF bad] by (auto simp: follow_def rethrowOrUnsupported_def)
  qed
qed

theorem flakeRef_failure_falls_through_witness:
  "parseInstallableString exampleParseEnv ''./my:dir''
       = Inr (InstallableFlake ''./my'' [''dir''] [''packages.''])
   \<and> parseInstallableString exampleParseEnv ''nixpkgs:hello''
       = Inr (InstallableFlake ''nixpkgs'' [''hello''] [''packages.''])
   \<and> parseInstallableString exampleParseEnv ''./link''
       = Inr (InstallableStorePath ''/nix/store/abc-hello'')
   \<and> parseInstallableString exampleParseEnv ''./result''
       = Inr (InstallableStorePath ''/nix/store/abc-hello'')
   \<and> parseInstallableString exampleParseEnv ''./dir'' = Inl (MissingFlake ''./dir'')
   \<and> parseInstallableString exampleParseEnv ''hello''
       = Inl (Error (''unsupported argument '%s'' @ [CHR 0x27]) [ArgStr ''hello''])"
proof -
  have 1: "parseInstallableString exampleParseEnv ''./my:dir''
       = Inr (InstallableFlake ''./my'' [''dir''] [''packages.''])"
    using flakeRef_failure_falls_through
            [of "''./my:dir''" exampleParseEnv "''./my:dir''" "''./my''" "''dir''",
             THEN conjunct1]
    by (simp add: exampleParseEnv_def hasPrefix_def)
  have 2: "parseInstallableString exampleParseEnv ''nixpkgs:hello''
       = Inr (InstallableFlake ''nixpkgs'' [''hello''] [''packages.''])"
    using flakeRef_failure_falls_through
            [of "''nixpkgs:hello''" exampleParseEnv "''nixpkgs:hello''" "''nixpkgs''" "''hello''",
             THEN conjunct2, THEN conjunct1]
    by (simp add: exampleParseEnv_def hasPrefix_def)
  have 3: "parseInstallableString exampleParseEnv ''./link''
       = Inr (InstallableStorePath ''/nix/store/abc-hello'')"
    using flakeRef_failure_falls_through
            [of "''./link''" exampleParseEnv "''./link''" "''''" "''''" "''/nix/store/abc-hello''",
             THEN conjunct2, THEN conjunct2, THEN conjunct1]
    by (simp add: exampleParseEnv_def hasPrefix_def)
  have 4: "parseInstallableString exampleParseEnv ''./result''
       = Inr (InstallableStorePath ''/nix/store/abc-hello'')"
    using flakeRef_failure_falls_through
            [of "''./result''" exampleParseEnv "''./result''" "''''" "''''" "''/nix/store/abc-hello''",
             THEN conjunct2, THEN conjunct2, THEN conjunct2, THEN conjunct1]
    by (simp add: exampleParseEnv_def hasPrefix_def)
  have 5: "parseInstallableString exampleParseEnv ''./dir'' = Inl (MissingFlake ''./dir'')"
    using flakeRef_failure_falls_through
            [of "''./dir''" exampleParseEnv "''./dir''" "''''" "''''" "''''" "''./dir''",
             THEN conjunct2, THEN conjunct2, THEN conjunct2, THEN conjunct2, THEN conjunct1]
    by (simp add: exampleParseEnv_def hasPrefix_def)
  have 6: "parseInstallableString exampleParseEnv ''hello''
       = Inl (Error (''unsupported argument '%s'' @ [CHR 0x27]) [ArgStr ''hello''])"
    using flakeRef_failure_falls_through
            [of "''hello''" exampleParseEnv "''hello''" "''''" "''''" "''''" "''hello''",
             THEN conjunct2, THEN conjunct2, THEN conjunct2, THEN conjunct2, THEN conjunct2]
    by (simp add: exampleParseEnv_def hasPrefix_def)
  show ?thesis by (intro conjI 1 2 3 4 5 6)
qed

section \<open>The name of the GC-root symlink\<close>

lemma replaceStrings_char:
  "replaceStrings s [c] to = concat (map (\<lambda>x. if x = c then to else [x]) s)"
  by (induction s) auto

text \<open>
  C8. The three replacements, applied in the order \<open>%\<close>, \<open>/\<close>, \<open>:\<close>, encode the
  reference's string form character by character, and the string
  \<open>github:owner/repo\<close> becomes \<open>github%3aowner%2frepo\<close>.
\<close>

theorem closureSymlinkName_percent_encodes:
  "closureSymlinkName s
     = replaceStrings (replaceStrings (replaceStrings s ''%'' ''%25'') ''/'' ''%2f'') '':'' ''%3a''
   \<and> closureSymlinkName s = concat (map specPercentEncode s)
   \<and> closureSymlinkName ''github:owner/repo'' = ''github%3aowner%2frepo''"
proof -
  have enc: "closureSymlinkName s = concat (map specPercentEncode s)" for s
    unfolding closureSymlinkName_def Let_def replaceStrings_char
    by (induction s) (auto simp: specPercentEncode_def)
  have "closureSymlinkName s
     = replaceStrings (replaceStrings (replaceStrings s ''%'' ''%25'') ''/'' ''%2f'') '':'' ''%3a''"
    by (simp only: closureSymlinkName_def Let_def)
  then show ?thesis
    using enc by (simp add: specPercentEncode_def)
qed


section \<open>Merging the buildables of one derivation\<close>

lemma collectBuildables_Inr:
  "collectBuildables drvs (res0, paths0) = Inr (res, paths) \<Longrightarrow>
     res = res0 @ map buildableOf drvs
     \<and> paths = paths0 \<union> Derivation.drvPath ` set drvs
     \<and> (\<forall>drv\<in>set drvs. outputName drv \<noteq> '''')"
proof (induction drvs arbitrary: res0 paths0)
  case Nil
  then show ?case by simp
next
  case (Cons drv drvs)
  from Cons.prems have ne: "outputName drv \<noteq> ''''"
    by (auto simp: Let_def split: if_splits)
  with Cons.prems have
    "collectBuildables drvs (res0 @ [buildableOf drv], insert (Derivation.drvPath drv) paths0)
       = Inr (res, paths)"
    by (simp add: Let_def emplace_def buildableOf_def)
  from Cons.IH[OF this] ne show ?case by auto
qed

lemma collectBuildables_total:
  "\<forall>drv\<in>set drvs. outputName drv \<noteq> '''' \<Longrightarrow>
     collectBuildables drvs (res0, paths0)
       = Inr (res0 @ map buildableOf drvs, paths0 \<union> Derivation.drvPath ` set drvs)"
  by (induction drvs arbitrary: res0 paths0) (auto simp: Let_def emplace_def buildableOf_def)

lemma mergeOutputs_drvPath: "Buildable.drvPath (mergeOutputs b res) = Buildable.drvPath b"
  by (induction res arbitrary: b) auto

lemma mergeOutputs_dom:
  "dom (outputs (mergeOutputs b res)) = dom (outputs b) \<union> (\<Union>r\<in>set res. dom (outputs r))"
  by (induction res arbitrary: b) (auto simp: insertRange_def)

lemma mergeOutputs_keeps:
  "outputs b n = Some p \<Longrightarrow> outputs (mergeOutputs b res) n = Some p"
  by (induction res arbitrary: b) (auto simp: insertRange_def map_add_def)

lemma mergeOutputs_from:
  "outputs (mergeOutputs b res) n = Some p \<Longrightarrow>
     outputs b n = Some p \<or> (\<exists>r\<in>set res. outputs r n = Some p)"
proof (induction res arbitrary: b)
  case Nil
  then show ?case by simp
next
  case (Cons r res)
  from Cons.IH[OF Cons.prems[simplified]] show ?case
    by (auto simp: insertRange_def map_add_def split: option.splits)
qed

lemma mergeOutputs_first:
  assumes "outputs b n = None"
    and "\<And>r r' p p'. r \<in> set res \<Longrightarrow> r' \<in> set res \<Longrightarrow> outputs r n = Some p
            \<Longrightarrow> outputs r' n = Some p' \<Longrightarrow> p = p'"
    and "r \<in> set res" and "outputs r n = Some p"
  shows "outputs (mergeOutputs b res) n = Some p"
  using assms
proof (induction res arbitrary: b)
  case Nil
  then show ?case by simp
next
  case (Cons a res)
  let ?b' = "b\<lparr>outputs := insertRange (outputs b) (outputs a)\<rparr>"
  show ?case
  proof (cases "outputs a n")
    case None
    with Cons.prems(3,4) have rin: "r \<in> set res" by auto
    have none: "outputs ?b' n = None"
      using None Cons.prems(1) by (simp add: insertRange_def map_add_def)
    have "outputs (mergeOutputs ?b' res) n = Some p"
    proof (rule Cons.IH[OF none _ rin Cons.prems(4)])
      fix r r' p p'
      assume "r \<in> set res" "r' \<in> set res" "outputs r n = Some p" "outputs r' n = Some p'"
      then show "p = p'"
        using Cons.prems(2)[of r r' p p'] by simp
    qed
    then show ?thesis by simp
  next
    case (Some q)
    have "q = p"
      using Cons.prems(2)[of a r q p] Some Cons.prems(3,4) by simp
    then have "outputs ?b' n = Some p"
      using Some Cons.prems(1) by (simp add: insertRange_def map_add_def)
    then have "outputs (mergeOutputs ?b' res) n = Some p"
      by (rule mergeOutputs_keeps)
    then show ?thesis by simp
  qed
qed

text \<open>
  C3. Let the first loop of \<^verbatim>\<open>toBuildables\<close> have produced the buildables \<open>res\<close>,
  one per derivation. When they all have the derivation path \<open>D\<close>, the result is a
  single buildable with that path whose outputs are the union of the outputs of
  \<open>res\<close>: the same names, every binding taken from one of them, and all their bindings
  when no name is bound to two different paths (otherwise the earlier buildable's
  binding of the name stays). When two of them differ in their derivation paths, the
  result is \<open>res\<close> itself, in order.
\<close>

theorem toBuildables_merges_same_drvPath:
  assumes "collectBuildables drvs ([], {}) = Inr (res, drvPaths)"
  shows "res = map (\<lambda>drv. \<lparr>Buildable.drvPath = Derivation.drvPath drv,
                           outputs = [outputName drv \<mapsto> outPath drv]\<rparr>) drvs
    \<and> (res \<noteq> [] \<and> (\<forall>b\<in>set res. Buildable.drvPath b = D) \<longrightarrow>
        (\<exists>b. toBuildablesOf (Inr drvs) = Inr [b] \<and> Buildable.drvPath b = D
             \<and> dom (outputs b) = (\<Union>r\<in>set res. dom (outputs r))
             \<and> Map.graph (outputs b) \<subseteq> (\<Union>r\<in>set res. Map.graph (outputs r))
             \<and> ((\<forall>r\<in>set res. \<forall>r'\<in>set res. \<forall>n p p'.
                    outputs r n = Some p \<and> outputs r' n = Some p' \<longrightarrow> p = p')
                  \<longrightarrow> Map.graph (outputs b) = (\<Union>r\<in>set res. Map.graph (outputs r)))))
    \<and> ((\<exists>b\<in>set res. \<exists>b'\<in>set res. Buildable.drvPath b \<noteq> Buildable.drvPath b')
         \<longrightarrow> toBuildablesOf (Inr drvs) = Inr res)"
proof -
  from collectBuildables_Inr[OF assms]
  have res: "res = map buildableOf drvs"
    and paths: "drvPaths = Derivation.drvPath ` set drvs" by auto
  have paths': "drvPaths = Buildable.drvPath ` set res"
    unfolding res paths by (simp add: buildableOf_def image_image)
  let ?b = "mergeOutputs \<lparr>Buildable.drvPath = Min drvPaths, outputs = Map.empty\<rparr> res"
  have p1: "res = map (\<lambda>drv. \<lparr>Buildable.drvPath = Derivation.drvPath drv,
                           outputs = [outputName drv \<mapsto> outPath drv]\<rparr>) drvs"
    unfolding res buildableOf_def ..
  have dm: "dom (outputs ?b) = (\<Union>r\<in>set res. dom (outputs r))"
    by (simp add: mergeOutputs_dom)
  have sub: "Map.graph (outputs ?b) \<subseteq> (\<Union>r\<in>set res. Map.graph (outputs r))"
  proof
    fix x assume "x \<in> Map.graph (outputs ?b)"
    then obtain n p where x: "x = (n, p)" and "outputs ?b n = Some p"
      by (auto simp: Map.graph_def)
    from mergeOutputs_from[OF this(2)] show "x \<in> (\<Union>r\<in>set res. Map.graph (outputs r))"
      using x by (auto simp: Map.graph_def)
  qed
  have sup: "(\<forall>r\<in>set res. \<forall>r'\<in>set res. \<forall>n p p'.
                    outputs r n = Some p \<and> outputs r' n = Some p' \<longrightarrow> p = p')
             \<longrightarrow> Map.graph (outputs ?b) = (\<Union>r\<in>set res. Map.graph (outputs r))"
  proof
    assume c: "\<forall>r\<in>set res. \<forall>r'\<in>set res. \<forall>n p p'.
                    outputs r n = Some p \<and> outputs r' n = Some p' \<longrightarrow> p = p'"
    have "(\<Union>r\<in>set res. Map.graph (outputs r)) \<subseteq> Map.graph (outputs ?b)"
    proof
      fix x assume "x \<in> (\<Union>r\<in>set res. Map.graph (outputs r))"
      then obtain r n p where rr: "r \<in> set res" "x = (n, p)" "outputs r n = Some p"
        by (auto simp: Map.graph_def)
      have "outputs ?b n = Some p"
      proof (rule mergeOutputs_first[OF _ _ rr(1) rr(3)])
        show "outputs \<lparr>Buildable.drvPath = Min drvPaths, outputs = Map.empty\<rparr> n = None"
          by simp
      next
        fix r r' p p'
        assume "r \<in> set res" "r' \<in> set res" "outputs r n = Some p" "outputs r' n = Some p'"
        with c show "p = p'" by blast
      qed
      then show "x \<in> Map.graph (outputs ?b)"
        using rr(2) by (simp add: Map.graph_def)
    qed
    with sub show "Map.graph (outputs ?b) = (\<Union>r\<in>set res. Map.graph (outputs r))"
      by (rule subset_antisym)
  qed
  have p2: "res \<noteq> [] \<and> (\<forall>b\<in>set res. Buildable.drvPath b = D) \<longrightarrow>
        (\<exists>b. toBuildablesOf (Inr drvs) = Inr [b] \<and> Buildable.drvPath b = D
             \<and> dom (outputs b) = (\<Union>r\<in>set res. dom (outputs r))
             \<and> Map.graph (outputs b) \<subseteq> (\<Union>r\<in>set res. Map.graph (outputs r))
             \<and> ((\<forall>r\<in>set res. \<forall>r'\<in>set res. \<forall>n p p'.
                    outputs r n = Some p \<and> outputs r' n = Some p' \<longrightarrow> p = p')
                  \<longrightarrow> Map.graph (outputs b) = (\<Union>r\<in>set res. Map.graph (outputs r))))"
  proof
    assume a: "res \<noteq> [] \<and> (\<forall>b\<in>set res. Buildable.drvPath b = D)"
    then have "drvPaths = {D}" using paths' by (cases res) auto
    then have one: "card drvPaths = 1" and min: "Min drvPaths = D" by simp_all
    have r: "toBuildablesOf (Inr drvs) = Inr [?b]"
      using assms one by (simp add: toBuildablesOf_def)
    have d: "Buildable.drvPath ?b = D" by (simp add: mergeOutputs_drvPath min)
    show "\<exists>b. toBuildablesOf (Inr drvs) = Inr [b] \<and> Buildable.drvPath b = D
             \<and> dom (outputs b) = (\<Union>r\<in>set res. dom (outputs r))
             \<and> Map.graph (outputs b) \<subseteq> (\<Union>r\<in>set res. Map.graph (outputs r))
             \<and> ((\<forall>r\<in>set res. \<forall>r'\<in>set res. \<forall>n p p'.
                    outputs r n = Some p \<and> outputs r' n = Some p' \<longrightarrow> p = p')
                  \<longrightarrow> Map.graph (outputs b) = (\<Union>r\<in>set res. Map.graph (outputs r)))"
      by (rule exI[of _ ?b]) (intro conjI r d dm sub sup)
  qed
  have p3: "(\<exists>b\<in>set res. \<exists>b'\<in>set res. Buildable.drvPath b \<noteq> Buildable.drvPath b')
         \<longrightarrow> toBuildablesOf (Inr drvs) = Inr res"
  proof
    assume "\<exists>b\<in>set res. \<exists>b'\<in>set res. Buildable.drvPath b \<noteq> Buildable.drvPath b'"
    then obtain x y where "x \<in> drvPaths" "y \<in> drvPaths" "x \<noteq> y"
      unfolding paths' by auto
    then have "card drvPaths \<noteq> 1"
      by (auto simp: card_1_singleton_iff)
    then show "toBuildablesOf (Inr drvs) = Inr res"
      using assms by (simp add: toBuildablesOf_def)
  qed
  show ?thesis by (intro conjI p1 p2 p3)
qed

theorem toBuildables_merges_same_drvPath_witness:
  "(\<exists>b. toBuildablesOf (Inr [Derivation ''D'' ''X'' ''a'', Derivation ''D'' ''Y'' ''b'',
                              Derivation ''D'' ''Z'' ''c'']) = Inr [b]
        \<and> Buildable.drvPath b = ''D''
        \<and> Map.graph (outputs b) = {(''a'', ''X''), (''b'', ''Y''), (''c'', ''Z'')})
   \<and> toBuildablesOf (Inr [Derivation ''D1'' ''X'' ''out'', Derivation ''D2'' ''Y'' ''out''])
     = Inr [\<lparr>Buildable.drvPath = ''D1'', outputs = [''out'' \<mapsto> ''X'']\<rparr>,
            \<lparr>Buildable.drvPath = ''D2'', outputs = [''out'' \<mapsto> ''Y'']\<rparr>]"
proof -
  let ?res = "[\<lparr>Buildable.drvPath = ''D'', outputs = [''a'' \<mapsto> ''X'']\<rparr>,
               \<lparr>Buildable.drvPath = ''D'', outputs = [''b'' \<mapsto> ''Y'']\<rparr>,
               \<lparr>Buildable.drvPath = ''D'', outputs = [''c'' \<mapsto> ''Z'']\<rparr>]"
  have h1: "collectBuildables [Derivation ''D'' ''X'' ''a'', Derivation ''D'' ''Y'' ''b'',
              Derivation ''D'' ''Z'' ''c''] ([], {}) = Inr (?res, {''D''})"
    by (simp add: Let_def emplace_def)
  have cons: "\<forall>r\<in>set ?res. \<forall>r'\<in>set ?res. \<forall>n p p'.
                outputs r n = Some p \<and> outputs r' n = Some p' \<longrightarrow> p = p'"
    by (auto split: if_splits)
  have g: "(\<Union>r\<in>set ?res. Map.graph (outputs r)) = {(''a'', ''X''), (''b'', ''Y''), (''c'', ''Z'')}"
    by (simp add: insert_commute)
  have same: "?res \<noteq> [] \<and> (\<forall>b\<in>set ?res. Buildable.drvPath b = ''D'')" by simp
  note t1 = toBuildables_merges_same_drvPath[OF h1, of "''D''"]
  have part1: "\<exists>b. toBuildablesOf (Inr [Derivation ''D'' ''X'' ''a'', Derivation ''D'' ''Y'' ''b'',
                              Derivation ''D'' ''Z'' ''c'']) = Inr [b]
        \<and> Buildable.drvPath b = ''D''
        \<and> Map.graph (outputs b) = {(''a'', ''X''), (''b'', ''Y''), (''c'', ''Z'')}"
    using t1[THEN conjunct2, THEN conjunct1, THEN mp, OF same]
  proof (elim exE conjE)
    fix b
    assume 1: "toBuildablesOf (Inr [Derivation ''D'' ''X'' ''a'', Derivation ''D'' ''Y'' ''b'',
                              Derivation ''D'' ''Z'' ''c'']) = Inr [b]"
      and 2: "Buildable.drvPath b = ''D''"
      and 3: "(\<forall>r\<in>set ?res. \<forall>r'\<in>set ?res. \<forall>n p p'.
                outputs r n = Some p \<and> outputs r' n = Some p' \<longrightarrow> p = p')
              \<longrightarrow> Map.graph (outputs b) = (\<Union>r\<in>set ?res. Map.graph (outputs r))"
    from 3[THEN mp, OF cons] have "Map.graph (outputs b) = {(''a'', ''X''), (''b'', ''Y''), (''c'', ''Z'')}"
      unfolding g .
    with 1 2 show ?thesis by (intro exI[of _ b] conjI)
  qed
  let ?res2 = "[\<lparr>Buildable.drvPath = ''D1'', outputs = [''out'' \<mapsto> ''X'']\<rparr>,
            \<lparr>Buildable.drvPath = ''D2'', outputs = [''out'' \<mapsto> ''Y'']\<rparr>]"
  have h2: "collectBuildables [Derivation ''D1'' ''X'' ''out'', Derivation ''D2'' ''Y'' ''out'']
              ([], {}) = Inr (?res2, {''D2'', ''D1''})"
    by (simp add: Let_def emplace_def)
  have diff: "\<exists>b\<in>set ?res2. \<exists>b'\<in>set ?res2. Buildable.drvPath b \<noteq> Buildable.drvPath b'"
    apply (rule bexI[of _ "\<lparr>Buildable.drvPath = ''D1'', outputs = [''out'' \<mapsto> ''X'']\<rparr>"])
     apply (rule bexI[of _ "\<lparr>Buildable.drvPath = ''D2'', outputs = [''out'' \<mapsto> ''Y'']\<rparr>"])
      apply simp_all
    done
  note t2 = toBuildables_merges_same_drvPath[OF h2]
  have part2: "toBuildablesOf (Inr [Derivation ''D1'' ''X'' ''out'', Derivation ''D2'' ''Y'' ''out''])
     = Inr ?res2"
    by (rule t2[THEN conjunct2, THEN conjunct2, THEN mp, OF diff])
  show ?thesis using part1 part2 by (rule conjI)
qed



section \<open>One store path of an installable\<close>

lemma foldl_outPaths:
  "foldl (\<lambda>outPaths b. outPaths \<union> ran (outputs b)) acc bs = acc \<union> (\<Union>b\<in>set bs. ran (outputs b))"
  by (induction bs arbitrary: acc) auto

lemma foldl_buildables:
  "foldl (\<lambda>(buildables, pathsToBuild) b. (buildables @ [b], pathsToBuild \<union> pathsRequested b))
     (bs0, ps0) bs = (bs0 @ bs, ps0 \<union> (\<Union>b\<in>set bs. pathsRequested b))"
  by (induction bs arbitrary: bs0 ps0) auto

lemma build_single:
  assumes "toBuildables env i (if mode \<noteq> Build then setReadOnlyMode env w else w) = (Inr bs, w2)"
    and "(if mode = DryRun then printMissing env (\<Union>b\<in>set bs. pathsRequested b) w2
          else if mode = Build then buildPaths env (\<Union>b\<in>set bs. pathsRequested b) w2
          else (None, w2)) = (None, w3)"
  shows "build env mode [i] w = (Inr bs, w3)"
proof -
  have "buildLoop env [i] ([], {}) (if mode \<noteq> Build then setReadOnlyMode env w else w)
          = (Inr (bs, \<Union>b\<in>set bs. pathsRequested b), w2)"
    using assms(1) by (simp add: foldl_buildables)
  then show ?thesis
    using assms(2) by (simp add: build_def Let_def)
qed

text \<open>
  C9 (as amended). Let \<^verbatim>\<open>toBuildables()\<close> of the installable return the buildables
  \<open>bs\<close>, and let the step of the mode (\<^verbatim>\<open>printMissing\<close>, \<^verbatim>\<open>buildPaths\<close> or
  nothing) not fail. Then \<^verbatim>\<open>toStorePaths\<close> is the set of all output paths of \<open>bs\<close>.
  When that set does not have exactly one element, \<^verbatim>\<open>toStorePath\<close> fails with the
  error "argument '%s' should evaluate to one store path", whose only argument is
  \<^verbatim>\<open>what()\<close> of the installable; when the set is \<open>{p}\<close>, it returns \<open>p\<close>.
\<close>

theorem toStorePath_one_path_or_error:
  assumes "toBuildables env i (if mode \<noteq> Build then setReadOnlyMode env w else w) = (Inr bs, w2)"
    and "(if mode = DryRun then printMissing env (\<Union>b\<in>set bs. pathsRequested b) w2
          else if mode = Build then buildPaths env (\<Union>b\<in>set bs. pathsRequested b) w2
          else (None, w2)) = (None, w3)"
  shows "toStorePaths env mode [i] w = (Inr (\<Union>b\<in>set bs. ran (outputs b)), w3)
     \<and> (card (\<Union>b\<in>set bs. ran (outputs b)) \<noteq> 1 \<and> whatOf env i = Inr name
          \<longrightarrow> toStorePath env mode i w
                = (Inl (Error ''argument '%s' should evaluate to one store path'' [ArgStr name]), w3))
     \<and> ((\<Union>b\<in>set bs. ran (outputs b)) = {p} \<longrightarrow> toStorePath env mode i w = (Inr p, w3))"
proof -
  have sp: "toStorePaths env mode [i] w = (Inr (\<Union>b\<in>set bs. ran (outputs b)), w3)"
    using build_single[OF assms] by (simp add: toStorePaths_def foldl_outPaths)
  have e: "card (\<Union>b\<in>set bs. ran (outputs b)) \<noteq> 1 \<and> whatOf env i = Inr name
          \<longrightarrow> toStorePath env mode i w
                = (Inl (Error ''argument '%s' should evaluate to one store path'' [ArgStr name]), w3)"
    by (simp add: toStorePath_def sp)
  have o: "(\<Union>b\<in>set bs. ran (outputs b)) = {p} \<longrightarrow> toStorePath env mode i w = (Inr p, w3)"
    by (simp add: toStorePath_def sp)
  show ?thesis by (intro conjI sp e o)
qed

lemma ran2: "a \<noteq> b \<Longrightarrow> ran [a \<mapsto> x, b \<mapsto> y] = {x, y}"
  by (auto simp: ran_def)

theorem toStorePath_one_path_or_error_witness:
  "toStorePath exampleBuildEnv NoBuild ''hello'' ()
     = (Inl (Error ''argument '%s' should evaluate to one store path'' [ArgStr ''hello'']), ())
   \<and> toStorePath exampleBuildEnv NoBuild ''/nix/store/p'' () = (Inr ''/nix/store/p'', ())"
proof -
  have b1: "toBuildables exampleBuildEnv ''hello''
      (if NoBuild \<noteq> Build then setReadOnlyMode exampleBuildEnv () else ())
     = (Inr [\<lparr>Buildable.drvPath = ''/nix/store/h.drv'',
               outputs = [''out'' \<mapsto> ''/nix/store/h'', ''dev'' \<mapsto> ''/nix/store/h-dev'']\<rparr>], ())"
    by (simp add: exampleBuildEnv_def)
  have b2: "toBuildables exampleBuildEnv ''/nix/store/p''
      (if NoBuild \<noteq> Build then setReadOnlyMode exampleBuildEnv () else ())
     = (Inr [\<lparr>Buildable.drvPath = '''', outputs = [''out'' \<mapsto> ''/nix/store/p'']\<rparr>], ())"
    by (simp add: exampleBuildEnv_def)
  have c: "card (ran [''out'' \<mapsto> ''/nix/store/h'', ''dev'' \<mapsto> ''/nix/store/h-dev'']) \<noteq> 1"
    by (simp add: ran2)
  have w: "whatOf exampleBuildEnv ''hello'' = Inr ''hello''"
    by (simp add: exampleBuildEnv_def)
  have 1: "toStorePath exampleBuildEnv NoBuild ''hello'' ()
     = (Inl (Error ''argument '%s' should evaluate to one store path'' [ArgStr ''hello'']), ())"
    using toStorePath_one_path_or_error[OF b1, of "()" "''hello''"] c w by simp
  have 2: "toStorePath exampleBuildEnv NoBuild ''/nix/store/p'' () = (Inr ''/nix/store/p'', ())"
    using toStorePath_one_path_or_error[OF b2, of "()" _ "''/nix/store/p''"] by simp
  show ?thesis using 1 2 by (rule conjI)
qed

text \<open>
  The error of \<^verbatim>\<open>toStorePath\<close> does not carry the number of paths: for an installable
  with two output paths the error's only argument is the installable's name.
\<close>

theorem toStorePath_error_without_count:
  "fst (toStorePath exampleBuildEnv NoBuild ''hello'' ())
     = Inl (Error ''argument '%s' should evaluate to one store path'' [ArgStr ''hello''])
   \<and> fst (toStorePaths exampleBuildEnv NoBuild [''hello''] ())
     = Inr {''/nix/store/h-dev'', ''/nix/store/h''}
   \<and> card {''/nix/store/h-dev'', ''/nix/store/h''} = 2
   \<and> ArgNat 2 \<notin> set (errorArgs (Error ''argument '%s' should evaluate to one store path''
                                      [ArgStr ''hello'']))"
proof -
  have sp: "toStorePaths exampleBuildEnv NoBuild [''hello''] ()
          = (Inr {''/nix/store/h-dev'', ''/nix/store/h''}, ())"
    by (simp add: toStorePaths_def build_def exampleBuildEnv_def ran2)
  then have "fst (toStorePath exampleBuildEnv NoBuild ''hello'' ())
     = Inl (Error ''argument '%s' should evaluate to one store path'' [ArgStr ''hello''])"
    by (simp add: toStorePath_def exampleBuildEnv_def)
  then show ?thesis using sp by simp
qed



section \<open>The closure loop\<close>

lemma validStorePaths_Un:
  "validStorePaths csp valid (A \<union> B) = validStorePaths csp valid A \<union> validStorePaths csp valid B"
  by (auto simp: validStorePaths_def)

lemma validStorePaths_insert:
  "validStorePaths csp valid (insert d A) =
     (if valid (csp d) then insert (csp d) (validStorePaths csp valid A)
      else validStorePaths csp valid A)"
  by (auto simp: validStorePaths_def)

lemma validStorePaths_empty: "validStorePaths csp valid {} = {}"
  by (simp add: validStorePaths_def)

lemma scanInputs_closure:
  "fst (scanInputs csp valid p k deps (c, q)) =
     c \<union> validStorePaths csp valid ((\<lambda>(n, dep, sub). dep) ` set deps)"
  by (induction deps arbitrary: k c q)
     (auto simp: Let_def validStorePaths_insert validStorePaths_empty)

lemma children_inputs:
  "(\<Union>(a, t)\<in>set (map (\<lambda>(j, (n, dep, sub)). (p @ [j], sub)) (List.enumerate k deps)).
       set (transitiveInputs t))
   = (\<Union>(n, dep, sub)\<in>set deps. set (transitiveInputs sub))"
  by (induction deps arbitrary: k) auto

lemma set_transitiveInputs:
  "set (transitiveInputs t) =
     (\<lambda>(n, dep, sub). dep) ` set (inputs t)
     \<union> (\<Union>(n, dep, sub)\<in>set (inputs t). set (transitiveInputs sub))"
proof (cases t)
  case (LockedInputs deps)
  have "set (concat (map (\<lambda>(n, dep, sub). dep # transitiveInputs sub) deps))
        = (\<lambda>(n, dep, sub). dep) ` set deps
          \<union> (\<Union>(n, dep, sub)\<in>set deps. set (transitiveInputs sub))"
    by (induction deps) auto
  then show ?thesis using LockedInputs by simp
qed

lemma closureLoop_closure:
  "fst (closureLoop csp valid queue c v) =
     c \<union> validStorePaths csp valid (\<Union>(a, t)\<in>set queue. set (transitiveInputs t))"
proof (induction csp valid queue c v rule: closureLoop.induct)
  case (1 csp valid closure visited)
  then show ?case by (simp add: validStorePaths_empty)
next
  case (2 csp valid p flake queue closure visited)
  obtain c' q' where s: "scanInputs csp valid p 0 (inputs flake) (closure, queue) = (c', q')"
    by (cases "scanInputs csp valid p 0 (inputs flake) (closure, queue)")
  have c': "c' = closure \<union> validStorePaths csp valid ((\<lambda>(n, dep, sub). dep) ` set (inputs flake))"
    using scanInputs_closure[of csp valid p 0 "inputs flake" closure queue] s by simp
  have q': "q' = queue @ map (\<lambda>(j, (n, dep, sub)). (p @ [j], sub)) (List.enumerate 0 (inputs flake))"
    using scanInputs_queue[of csp valid p 0 "inputs flake" closure queue] s by simp
  have ih: "fst (closureLoop csp valid q' c' (visited @ [p])) =
     c' \<union> validStorePaths csp valid (\<Union>(a, t)\<in>set q'. set (transitiveInputs t))"
    using 2[OF s[symmetric]] .
  have u: "(\<Union>(a, t)\<in>set q'. set (transitiveInputs t))
       = (\<Union>(a, t)\<in>set queue. set (transitiveInputs t))
         \<union> (\<Union>(n, dep, sub)\<in>set (inputs flake). set (transitiveInputs sub))"
    unfolding q' using children_inputs[of p 0 "inputs flake"] by simp
  have "fst (closureLoop csp valid ((p, flake) # queue) closure visited)
          = fst (closureLoop csp valid q' c' (visited @ [p]))"
    by (simp add: s)
  also have "\<dots> = c' \<union> validStorePaths csp valid (\<Union>(a, t)\<in>set q'. set (transitiveInputs t))"
    by (rule ih)
  also have "\<dots> = closure \<union> validStorePaths csp valid ((\<lambda>(n, dep, sub). dep) ` set (inputs flake))
        \<union> (validStorePaths csp valid (\<Union>(a, t)\<in>set queue. set (transitiveInputs t))
           \<union> validStorePaths csp valid (\<Union>(n, dep, sub)\<in>set (inputs flake). set (transitiveInputs sub)))"
    by (simp only: u c' validStorePaths_Un)
  also have "\<dots> = closure \<union> validStorePaths csp valid
       (\<Union>(a, t)\<in>set ((p, flake) # queue). set (transitiveInputs t))"
    by (simp add: validStorePaths_Un set_transitiveInputs[of flake] Un_ac)
  finally show ?case .
qed


lemma children_addresses:
  "concat (map (\<lambda>(a, t). addresses a t)
      (map (\<lambda>(j, (n, dep, sub)). (p @ [j], sub)) (List.enumerate k deps)))
   = addressesFrom p k deps"
  by (induction deps arbitrary: k) auto

lemma closureLoop_visited:
  "mset (snd (closureLoop csp valid queue c v)) =
     mset v + mset (concat (map (\<lambda>(a, t). addresses a t) queue))"
proof (induction csp valid queue c v rule: closureLoop.induct)
  case (1 csp valid closure visited)
  then show ?case by simp
next
  case (2 csp valid p flake queue closure visited)
  obtain c' q' where s: "scanInputs csp valid p 0 (inputs flake) (closure, queue) = (c', q')"
    by (cases "scanInputs csp valid p 0 (inputs flake) (closure, queue)")
  have q': "q' = queue @ map (\<lambda>(j, (n, dep, sub)). (p @ [j], sub)) (List.enumerate 0 (inputs flake))"
    using scanInputs_queue[of csp valid p 0 "inputs flake" closure queue] s by simp
  have a: "addresses p flake = p # addressesFrom p 0 (inputs flake)"
    by (cases flake) simp
  have "mset (snd (closureLoop csp valid ((p, flake) # queue) closure visited))
          = mset (snd (closureLoop csp valid q' c' (visited @ [p])))"
    by (simp add: s)
  also have "\<dots> = mset (visited @ [p]) + mset (concat (map (\<lambda>(a, t). addresses a t) q'))"
    by (rule 2[OF s[symmetric]])
  also have "\<dots> = mset visited + mset (concat (map (\<lambda>(a, t). addresses a t) ((p, flake) # queue)))"
    unfolding q' by (simp add: children_addresses a del: map_map)
  finally show ?case .
qed

lemma addresses_extend:
  "q \<in> set (addresses p (t :: 'i LockedInputs)) \<Longrightarrow> take (length p) q = p"
  "q \<in> set (addressesFrom p k (deps :: (string \<times> 'i \<times> 'i LockedInputs) list))
     \<Longrightarrow> take (length p) q = p \<and> length p < length q \<and> k \<le> q ! length p"
proof (induction p t and p k deps arbitrary: q and q rule: addresses_addressesFrom.induct)
  case (1 p deps)
  then show ?case by auto
next
  case (2 p k)
  then show ?case by simp
next
  case (3 p k n dep sub deps)
  from "3.prems" consider "q \<in> set (addresses (p @ [k]) sub)" | "q \<in> set (addressesFrom p (Suc k) deps)"
    by auto
  then show ?case
  proof cases
    case 1
    from "3.IH"(1)[OF 1] have t: "take (Suc (length p)) q = p @ [k]" by simp
    then have l: "length p < length q"
      by (metis length_append_singleton length_take lessI min_less_iff_conj)
    from t have "take (length p) (take (Suc (length p)) q) = take (length p) (p @ [k])" by simp
    then have tp: "take (length p) q = p" by simp
    from t l have "q ! length p = k"
      by (metis nth_append_length nth_take lessI)
    with tp l show ?thesis by simp
  next
    case 2
    from "3.IH"(2)[OF 2] show ?thesis by simp
  qed
qed

lemma addresses_distinct:
  "distinct (addresses p (t :: 'i LockedInputs))"
  "distinct (addressesFrom p k (deps :: (string \<times> 'i \<times> 'i LockedInputs) list))"
proof (induction p t and p k deps rule: addresses_addressesFrom.induct)
  case (1 p deps)
  have "p \<notin> set (addressesFrom p 0 deps)"
    using addresses_extend(2)[of p p 0 deps] by auto
  with 1 show ?case by simp
next
  case (2 p k)
  then show ?case by simp
next
  case (3 p k n dep sub deps)
  have "set (addresses (p @ [k]) sub) \<inter> set (addressesFrom p (Suc k) deps) = {}"
  proof (rule ccontr)
    assume "set (addresses (p @ [k]) sub) \<inter> set (addressesFrom p (Suc k) deps) \<noteq> {}"
    then obtain q where q1: "q \<in> set (addresses (p @ [k]) sub)"
      and q2: "q \<in> set (addressesFrom p (Suc k) deps)" by auto
    from addresses_extend(1)[OF q1] have t: "take (Suc (length p)) q = p @ [k]" by simp
    from addresses_extend(2)[OF q2] have l: "length p < length q" and ge: "Suc k \<le> q ! length p"
      by auto
    from t l have "q ! length p = k"
      by (metis nth_append_length nth_take lessI)
    with ge show False by simp
  qed
  with 3 show ?case by simp
qed

lemma addresses_length:
  "length (addresses p (t :: 'i LockedInputs)) = countNodes t"
  "length (addressesFrom p k (deps :: (string \<times> 'i \<times> 'i LockedInputs) list))
     = sum_list (map (\<lambda>(n, i, sub). countNodes sub) deps)"
  by (induction p t and p k deps rule: addresses_addressesFrom.induct) auto


lemma flakeClosure_closure:
  "fst (flakeClosure env store resFlake) =
     insert (sourceStorePath resFlake)
       (set (filter (isValidPath store)
          (map (computeStorePath env) (transitiveInputs (lockFile resFlake)))))"
  unfolding flakeClosure_def closureLoop_closure validStorePaths_def by auto

lemma flakeClosure_visited:
  "mset (snd (flakeClosure env store resFlake)) = mset (addresses [] (lockFile resFlake))"
  unfolding flakeClosure_def closureLoop_visited by simp

lemma flakeClosure_nonempty: "fst (flakeClosure env store resFlake) \<noteq> {}"
  by (simp add: flakeClosure_closure)

lemma makeFlakeClosureGCRoot_written:
  assumes "\<not> isPath env origFlakeRef"
    and "isValidPath store (sourceStorePath resFlake)"
    and "take 1 (refToString env origFlakeRef) \<noteq> ''.''"
    and "closure = fst (flakeClosure env store resFlake)"
    and "manifest = concatStringsSep '' '' (sorted_list_of_set closure)"
    and "closurePath = makeTextPath env ''flake-closure'' manifest closure"
    and "cacheDir = getCacheDir env @ ''/nix/flake-closures''"
    and "symlink = cacheDir @ ''/'' @ closureSymlinkName (refToString env origFlakeRef)"
  shows "makeFlakeClosureGCRoot env store origFlakeRef resFlake =
           Inr (RootWritten closurePath symlink,
                \<lparr>validPaths = insert closurePath (validPaths store),
                 textObjects = (textObjects store)(closurePath \<mapsto> (manifest, closure)),
                 symlinks = (symlinks store)(symlink \<mapsto> closurePath),
                 indirectRoots = insert symlink (indirectRoots store),
                 directories = insert cacheDir (directories store)\<rparr>)"
proof -
  have ne: "fst (flakeClosure env store resFlake) \<noteq> {}" by (rule flakeClosure_nonempty)
  have dot: "\<not> (case refToString env origFlakeRef of [] \<Rightarrow> False | c # _ \<Rightarrow> c = CHR ''.'')"
    using assms(3) by (cases "refToString env origFlakeRef") auto
  show ?thesis
    unfolding makeFlakeClosureGCRoot_def
    using assms(1,2) ne dot
    by (simp add: Let_def addTextToStore_def createDirs_def replaceSymlink_def
                  addIndirectRoot_def assms(4-8))
qed

text \<open>
  C7 (as amended). The loop over the queue ends for every lock file (\<open>closureLoop\<close> is
  a total function), and it pops every occurrence of a node in the nested lock file
  exactly once: the addresses popped are distinct, they are the addresses of the lock
  file's nodes, and their number is the number of nodes. The loop keeps no set of
  visited nodes: a locked input is visited as often as it occurs in the lock file, once
  below each node that has it as an input. The closure at the end is the flake's source
  path with the store paths of all inputs, direct and indirect, that are valid in the
  store. For a path reference the builder returns at once and leaves the store as it
  was; for another reference, when both assertions hold, it writes that closure as the
  text object.
\<close>

theorem closure_builder_visits_once:
  "distinct (snd (flakeClosure env store resFlake))
   \<and> mset (snd (flakeClosure env store resFlake)) = mset (addresses [] (lockFile resFlake))
   \<and> length (snd (flakeClosure env store resFlake)) = countNodes (lockFile resFlake)
   \<and> fst (flakeClosure env store resFlake)
       = insert (sourceStorePath resFlake)
           (set (filter (isValidPath store)
              (map (computeStorePath env) (transitiveInputs (lockFile resFlake)))))
   \<and> (isPath env origFlakeRef
        \<longrightarrow> makeFlakeClosureGCRoot env store origFlakeRef resFlake = Inr (ReturnedForPath, store))
   \<and> (\<not> isPath env origFlakeRef \<and> isValidPath store (sourceStorePath resFlake)
          \<and> take 1 (refToString env origFlakeRef) \<noteq> ''.''
        \<longrightarrow> (\<exists>closurePath symlink store'.
              makeFlakeClosureGCRoot env store origFlakeRef resFlake
                = Inr (RootWritten closurePath symlink, store')
              \<and> textObjects store' closurePath
                  = Some (concatStringsSep '' '' (sorted_list_of_set
                            (fst (flakeClosure env store resFlake))),
                          fst (flakeClosure env store resFlake))))
   \<and> mset (map (inputAt (lockFile resFlake)) (snd (flakeClosure env store resFlake)))
       = mset (map (inputAt (lockFile resFlake)) (addresses [] (lockFile resFlake)))"
proof -
  let ?v = "snd (flakeClosure env store resFlake)"
  have m: "mset ?v = mset (addresses [] (lockFile resFlake))"
    by (rule flakeClosure_visited)
  have d: "distinct ?v"
    using m addresses_distinct(1)[of "[]" "lockFile resFlake"] by (metis mset_eq_imp_distinct_iff)
  have l: "length ?v = countNodes (lockFile resFlake)"
    using m addresses_length(1)[of "[]" "lockFile resFlake"] by (metis size_mset)
  have p: "isPath env origFlakeRef
        \<longrightarrow> makeFlakeClosureGCRoot env store origFlakeRef resFlake = Inr (ReturnedForPath, store)"
    by (simp add: makeFlakeClosureGCRoot_def)
  have w: "\<not> isPath env origFlakeRef \<and> isValidPath store (sourceStorePath resFlake)
          \<and> take 1 (refToString env origFlakeRef) \<noteq> ''.''
        \<longrightarrow> (\<exists>closurePath symlink store'.
              makeFlakeClosureGCRoot env store origFlakeRef resFlake
                = Inr (RootWritten closurePath symlink, store')
              \<and> textObjects store' closurePath
                  = Some (concatStringsSep '' '' (sorted_list_of_set
                            (fst (flakeClosure env store resFlake))),
                          fst (flakeClosure env store resFlake)))"
  proof
    assume a: "\<not> isPath env origFlakeRef \<and> isValidPath store (sourceStorePath resFlake)
          \<and> take 1 (refToString env origFlakeRef) \<noteq> ''.''"
    note r = makeFlakeClosureGCRoot_written[OF a[THEN conjunct1] a[THEN conjunct2, THEN conjunct1]
                a[THEN conjunct2, THEN conjunct2] refl refl refl refl refl]
    show "\<exists>closurePath symlink store'.
              makeFlakeClosureGCRoot env store origFlakeRef resFlake
                = Inr (RootWritten closurePath symlink, store')
              \<and> textObjects store' closurePath
                  = Some (concatStringsSep '' '' (sorted_list_of_set
                            (fst (flakeClosure env store resFlake))),
                          fst (flakeClosure env store resFlake))"
      by (intro exI conjI, rule r) simp
  qed
  have i: "mset (map (inputAt (lockFile resFlake)) ?v)
             = mset (map (inputAt (lockFile resFlake)) (addresses [] (lockFile resFlake)))"
    using m by (metis mset_map)
  show ?thesis by (intro conjI d m l flakeClosure_closure p w i)
qed

text \<open>
  C10. The closure always holds the flake's source path, so it is never empty, and the
  builder never leaves through the \<^verbatim>\<open>closure.empty()\<close> return. For a reference that
  is no path, when both assertions hold, the closure file is added to the store and the
  symlink, named by the encoded reference below the cache directory, points to it and
  is registered as an indirect root.
\<close>

theorem gc_root_always_written:
  "sourceStorePath resFlake \<in> fst (flakeClosure env store resFlake)
   \<and> fst (flakeClosure env store resFlake) \<noteq> {}
   \<and> makeFlakeClosureGCRoot env store origFlakeRef resFlake \<noteq> Inr (ReturnedForEmptyClosure, store')
   \<and> (\<not> isPath env origFlakeRef \<and> isValidPath store (sourceStorePath resFlake)
          \<and> take 1 (refToString env origFlakeRef) \<noteq> ''.''
        \<longrightarrow> (\<exists>closurePath symlink store1.
              makeFlakeClosureGCRoot env store origFlakeRef resFlake
                = Inr (RootWritten closurePath symlink, store1)
              \<and> symlink = getCacheDir env @ ''/nix/flake-closures/''
                            @ closureSymlinkName (refToString env origFlakeRef)
              \<and> (\<exists>manifest. textObjects store1 closurePath
                    = Some (manifest, fst (flakeClosure env store resFlake)))
              \<and> closurePath \<in> validPaths store1
              \<and> symlinks store1 symlink = Some closurePath
              \<and> symlink \<in> indirectRoots store1))"
proof -
  have s: "sourceStorePath resFlake \<in> fst (flakeClosure env store resFlake)"
    by (simp add: flakeClosure_closure)
  have ne: "fst (flakeClosure env store resFlake) \<noteq> {}" by (rule flakeClosure_nonempty)
  have u: "makeFlakeClosureGCRoot env store origFlakeRef resFlake \<noteq> Inr (ReturnedForEmptyClosure, store')"
    using ne
    by (auto simp: makeFlakeClosureGCRoot_def Let_def addTextToStore_def split: if_splits)
  have w: "\<not> isPath env origFlakeRef \<and> isValidPath store (sourceStorePath resFlake)
          \<and> take 1 (refToString env origFlakeRef) \<noteq> ''.''
        \<longrightarrow> (\<exists>closurePath symlink store1.
              makeFlakeClosureGCRoot env store origFlakeRef resFlake
                = Inr (RootWritten closurePath symlink, store1)
              \<and> symlink = getCacheDir env @ ''/nix/flake-closures/''
                            @ closureSymlinkName (refToString env origFlakeRef)
              \<and> (\<exists>manifest. textObjects store1 closurePath
                    = Some (manifest, fst (flakeClosure env store resFlake)))
              \<and> closurePath \<in> validPaths store1
              \<and> symlinks store1 symlink = Some closurePath
              \<and> symlink \<in> indirectRoots store1)"
  proof
    assume a: "\<not> isPath env origFlakeRef \<and> isValidPath store (sourceStorePath resFlake)
          \<and> take 1 (refToString env origFlakeRef) \<noteq> ''.''"
    note r = makeFlakeClosureGCRoot_written[OF a[THEN conjunct1] a[THEN conjunct2, THEN conjunct1]
                a[THEN conjunct2, THEN conjunct2] refl refl refl refl refl]
    show "\<exists>closurePath symlink store1.
              makeFlakeClosureGCRoot env store origFlakeRef resFlake
                = Inr (RootWritten closurePath symlink, store1)
              \<and> symlink = getCacheDir env @ ''/nix/flake-closures/''
                            @ closureSymlinkName (refToString env origFlakeRef)
              \<and> (\<exists>manifest. textObjects store1 closurePath
                    = Some (manifest, fst (flakeClosure env store resFlake)))
              \<and> closurePath \<in> validPaths store1
              \<and> symlinks store1 symlink = Some closurePath
              \<and> symlink \<in> indirectRoots store1"
      by (intro exI conjI, rule r) simp_all
  qed
  show ?thesis by (intro conjI s ne u w)
qed


lemma example_closure:
  "insert (sourceStorePath exampleFlake)
     (set (filter (isValidPath exampleStore)
        (map (computeStorePath exampleGCEnv) (transitiveInputs (lockFile exampleFlake)))))
   = {''/nix/store/src'', ''/nix/store/a''}"
  by (simp add: exampleFlake_def exampleGCEnv_def exampleStore_def isValidPath_def)

lemma example_manifest:
  "concatStringsSep '' '' (sorted_list_of_set {''/nix/store/src'', ''/nix/store/a''})
     = ''/nix/store/a /nix/store/src''"
  by simp

theorem closure_builder_visits_once_witness:
  "distinct (snd (flakeClosure exampleGCEnv exampleStore exampleFlake))
   \<and> length (snd (flakeClosure exampleGCEnv exampleStore exampleFlake)) = 4
   \<and> fst (flakeClosure exampleGCEnv exampleStore exampleFlake)
       = {''/nix/store/src'', ''/nix/store/a''}
   \<and> makeFlakeClosureGCRoot exampleGCEnv exampleStore ''./local'' exampleFlake
       = Inr (ReturnedForPath, exampleStore)
   \<and> (\<exists>closurePath symlink store'.
         makeFlakeClosureGCRoot exampleGCEnv exampleStore ''github:owner/repo'' exampleFlake
           = Inr (RootWritten closurePath symlink, store')
         \<and> textObjects store' closurePath
             = Some (''/nix/store/a /nix/store/src'', {''/nix/store/src'', ''/nix/store/a''}))"
proof -
  note t = closure_builder_visits_once[of exampleGCEnv exampleStore exampleFlake]
  have d: "distinct (snd (flakeClosure exampleGCEnv exampleStore exampleFlake))"
    by (rule t[THEN conjunct1])
  have l: "length (snd (flakeClosure exampleGCEnv exampleStore exampleFlake)) = 4"
    using t[THEN conjunct2, THEN conjunct2, THEN conjunct1]
    by (simp add: exampleFlake_def)
  have c: "fst (flakeClosure exampleGCEnv exampleStore exampleFlake)
       = {''/nix/store/src'', ''/nix/store/a''}"
    using t[THEN conjunct2, THEN conjunct2, THEN conjunct2, THEN conjunct1]
    by (simp only: example_closure)
  have p: "makeFlakeClosureGCRoot exampleGCEnv exampleStore ''./local'' exampleFlake
       = Inr (ReturnedForPath, exampleStore)"
    using t[of "''./local''", THEN conjunct2, THEN conjunct2, THEN conjunct2, THEN conjunct2,
            THEN conjunct1]
    by (simp add: exampleGCEnv_def)
  have pre: "\<not> isPath exampleGCEnv ''github:owner/repo''
       \<and> isValidPath exampleStore (sourceStorePath exampleFlake)
       \<and> take 1 (refToString exampleGCEnv ''github:owner/repo'') \<noteq> ''.''"
    by (simp add: exampleGCEnv_def exampleStore_def exampleFlake_def isValidPath_def)
  have w: "\<exists>closurePath symlink store'.
         makeFlakeClosureGCRoot exampleGCEnv exampleStore ''github:owner/repo'' exampleFlake
           = Inr (RootWritten closurePath symlink, store')
         \<and> textObjects store' closurePath
             = Some (''/nix/store/a /nix/store/src'', {''/nix/store/src'', ''/nix/store/a''})"
    using t[of "''github:owner/repo''", THEN conjunct2, THEN conjunct2, THEN conjunct2,
            THEN conjunct2, THEN conjunct2, THEN conjunct1, THEN mp, OF pre]
    by (simp only: c example_manifest)
  show ?thesis by (intro conjI d l c p w)
qed

text \<open>
  The example lock file has the input with lock data \<open>a\<close> twice, below the root and
  below the input \<open>utils\<close>. The loop pops both occurrences: the same locked input is
  visited twice.
\<close>

theorem shared_input_visited_twice:
  "snd (flakeClosure exampleGCEnv exampleStore exampleFlake) = [[], [0], [1], [1, 0]]
   \<and> inputAt (lockFile exampleFlake) [0] = Some (''a'', LockedInputs [])
   \<and> inputAt (lockFile exampleFlake) [1, 0] = Some (''a'', LockedInputs [])
   \<and> \<not> distinct (map (inputAt (lockFile exampleFlake))
                    (snd (flakeClosure exampleGCEnv exampleStore exampleFlake)))"
proof -
  have v: "snd (flakeClosure exampleGCEnv exampleStore exampleFlake) = [[], [0], [1], [1, 0]]"
    by (simp add: flakeClosure_def exampleFlake_def exampleGCEnv_def exampleStore_def
          isValidPath_def Let_def)
  have a: "inputAt (lockFile exampleFlake) [0] = Some (''a'', LockedInputs [])"
    by (simp add: exampleFlake_def)
  have b: "inputAt (lockFile exampleFlake) [1, 0] = Some (''a'', LockedInputs [])"
    by (simp add: exampleFlake_def)
  have "\<not> distinct (map (inputAt (lockFile exampleFlake)) [[], [0], [1], [1, 0]])"
    using a b by simp
  then show ?thesis using v a b by simp
qed

theorem gc_root_always_written_witness:
  "sourceStorePath exampleFlake \<in> fst (flakeClosure exampleGCEnv exampleStore exampleFlake)
   \<and> (\<exists>closurePath store1.
         makeFlakeClosureGCRoot exampleGCEnv exampleStore ''github:owner/repo'' exampleFlake
           = Inr (RootWritten closurePath
                    ''/home/user/.cache/nix/flake-closures/github%3aowner%2frepo'', store1)
         \<and> symlinks store1 ''/home/user/.cache/nix/flake-closures/github%3aowner%2frepo''
             = Some closurePath
         \<and> ''/home/user/.cache/nix/flake-closures/github%3aowner%2frepo'' \<in> indirectRoots store1)"
proof -
  note t = gc_root_always_written[of exampleFlake exampleGCEnv exampleStore "''github:owner/repo''"]
  have pre: "\<not> isPath exampleGCEnv ''github:owner/repo''
       \<and> isValidPath exampleStore (sourceStorePath exampleFlake)
       \<and> take 1 (refToString exampleGCEnv ''github:owner/repo'') \<noteq> ''.''"
    by (simp add: exampleGCEnv_def exampleStore_def exampleFlake_def isValidPath_def)
  have n: "getCacheDir exampleGCEnv @ ''/nix/flake-closures/''
             @ closureSymlinkName (refToString exampleGCEnv ''github:owner/repo'')
           = ''/home/user/.cache/nix/flake-closures/github%3aowner%2frepo''"
    by (simp add: exampleGCEnv_def closureSymlinkName_def)
  have w: "\<exists>closurePath store1.
         makeFlakeClosureGCRoot exampleGCEnv exampleStore ''github:owner/repo'' exampleFlake
           = Inr (RootWritten closurePath
                    ''/home/user/.cache/nix/flake-closures/github%3aowner%2frepo'', store1)
         \<and> symlinks store1 ''/home/user/.cache/nix/flake-closures/github%3aowner%2frepo''
             = Some closurePath
         \<and> ''/home/user/.cache/nix/flake-closures/github%3aowner%2frepo'' \<in> indirectRoots store1"
    using t[THEN conjunct2, THEN conjunct2, THEN conjunct2, THEN mp, OF pre]
    unfolding n by blast
  show ?thesis by (intro conjI t[THEN conjunct1] w)
qed



section \<open>Resolving a flake installable\<close>

lemma noValidHit_validCacheHit:
  "noValidHit env (evalCache st) fp c \<Longrightarrow> validCacheHit env fp c st = None"
  by (auto simp: noValidHit_def validCacheHit_def cacheGetDerivation_def split: option.splits)

lemma ensureOutputs_cases:
  assumes "outputsAre env flakeRef resFlake v" and "vo = None \<or> vo = Some v"
  shows "\<exists>w'. ensureOutputs env flakeRef resFlake vo st =
           (Inr v, st\<lparr>world := w',
                      outputsEvaluated := outputsEvaluated st + (if vo = None then 1 else 0)\<rparr>)"
proof (cases vo)
  case None
  from assms(1) obtain w' where "getFlakeOutputs env flakeRef resFlake (world st) = (Inr v, w')"
    unfolding outputsAre_def by blast
  then show ?thesis using None by (auto simp: ensureOutputs_def)
next
  case (Some a)
  with assms(2) have "vo = Some v" by simp
  then have "ensureOutputs env flakeRef resFlake vo st =
           (Inr v, st\<lparr>world := world st,
                      outputsEvaluated := outputsEvaluated st + (if vo = None then 1 else 0)\<rparr>)"
    by (simp add: ensureOutputs_def)
  then show ?thesis by blast
qed

lemma evalAttrPath_absent:
  assumes "attrAbsent env v c"
  shows "\<exists>m w'. evalAttrPath env fp c v st = (Inl (AttrPathNotFound m), st\<lparr>world := w'\<rparr>)"
proof -
  from assms obtain m w' where "findAlongAttrPath env v c (world st) = (Inl (AttrPathNotFound m), w')"
    unfolding attrAbsent_def by blast
  then show ?thesis by (auto simp: evalAttrPath_def)
qed

lemma evalAttrPath_derivation:
  assumes "attrIsDerivation env v c d"
  shows "\<exists>w'. evalAttrPath env fp c v st =
           (Inr d, st\<lparr>world := w', evalCache := (evalCache st)((fp, c) \<mapsto> d)\<rparr>)"
proof -
  from assms obtain va w1 where f: "findAlongAttrPath env v c (world st) = (Inr va, w1)"
    and g: "\<forall>w1. \<exists>w2. getDerivation env va w1 = (Inr (Some d), w2)"
    unfolding attrIsDerivation_def by blast
  from g obtain w2 where "getDerivation env va w1 = (Inr (Some d), w2)" by blast
  with f show ?thesis by (auto simp: evalAttrPath_def cacheAddDerivation_def)
qed

lemma evalAttrPath_no_derivation:
  assumes "attrIsNoDerivation env v c"
  shows "\<exists>w'. evalAttrPath env fp c v st =
           (Inl (Error ''flake output attribute '%s' is not a derivation'' [ArgStr c]),
            st\<lparr>world := w'\<rparr>)"
proof -
  from assms obtain va w1 where f: "findAlongAttrPath env v c (world st) = (Inr va, w1)"
    and g: "\<forall>w1. \<exists>w2. getDerivation env va w1 = (Inr None, w2)"
    unfolding attrIsNoDerivation_def by blast
  from g obtain w2 where "getDerivation env va w1 = (Inr None, w2)" by blast
  with f show ?thesis by (auto simp: evalAttrPath_def)
qed

lemma attrPathLoop_skip:
  assumes "outputsAre env flakeRef resFlake v"
    and "\<forall>c\<in>set pre. attrAbsent env v c"
    and "\<forall>c\<in>set pre. noValidHit env (evalCache st) (getFingerprint env resFlake) c"
    and "vo = None \<or> vo = Some v"
  shows "\<exists>w'. attrPathLoop env flakeRef resFlake attrPaths (pre @ rest) vo st =
           attrPathLoop env flakeRef resFlake attrPaths rest
             (if pre = [] then vo else Some v)
             (st\<lparr>world := w',
                 outputsEvaluated := outputsEvaluated st
                                       + (if pre \<noteq> [] \<and> vo = None then 1 else 0)\<rparr>)"
  using assms(2-4)
proof (induction pre arbitrary: vo st)
  case Nil
  have "st\<lparr>world := world st, outputsEvaluated := outputsEvaluated st + 0\<rparr> = st" by simp
  then show ?case by (metis (full_types) append_Nil)
next
  case (Cons c pre)
  have nh: "validCacheHit env (getFingerprint env resFlake) c st = None"
    using Cons.prems(2) by (simp add: noValidHit_validCacheHit)
  from ensureOutputs_cases[OF assms(1) Cons.prems(3)] obtain w1 where
    eo: "ensureOutputs env flakeRef resFlake vo st =
           (Inr v, st\<lparr>world := w1,
                      outputsEvaluated := outputsEvaluated st + (if vo = None then 1 else 0)\<rparr>)"
    by blast
  let ?st1 = "st\<lparr>world := w1,
                outputsEvaluated := outputsEvaluated st + (if vo = None then 1 else 0)\<rparr>"
  have "attrAbsent env v c" using Cons.prems(1) by simp
  from evalAttrPath_absent[OF this] obtain m w2 where
    ea: "evalAttrPath env (getFingerprint env resFlake) c v ?st1
           = (Inl (AttrPathNotFound m), ?st1\<lparr>world := w2\<rparr>)"
    by blast
  let ?st2 = "?st1\<lparr>world := w2\<rparr>"
  have step: "attrPathLoop env flakeRef resFlake attrPaths ((c # pre) @ rest) vo st
                = attrPathLoop env flakeRef resFlake attrPaths (pre @ rest) (Some v) ?st2"
    by (simp add: nh eo ea)
  have p1: "\<forall>c\<in>set pre. attrAbsent env v c" using Cons.prems(1) by simp
  have p2: "\<forall>c\<in>set pre. noValidHit env (evalCache ?st2) (getFingerprint env resFlake) c"
    using Cons.prems(2) by simp
  from Cons.IH[OF p1 p2, of "Some v"] obtain w3 where
    ih: "attrPathLoop env flakeRef resFlake attrPaths (pre @ rest) (Some v) ?st2 =
           attrPathLoop env flakeRef resFlake attrPaths rest
             (if pre = [] then Some v else Some v)
             (?st2\<lparr>world := w3,
                 outputsEvaluated := outputsEvaluated ?st2
                                       + (if pre \<noteq> [] \<and> Some v = None then 1 else 0)\<rparr>)"
    by blast
  have "attrPathLoop env flakeRef resFlake attrPaths ((c # pre) @ rest) vo st =
           attrPathLoop env flakeRef resFlake attrPaths rest (Some v)
             (st\<lparr>world := w3,
                 outputsEvaluated := outputsEvaluated st + (if vo = None then 1 else 0)\<rparr>)"
    using step ih by simp
  then show ?case by auto
qed


lemma attrPathLoop_fresh:
  assumes "outputsAre env flakeRef resFlake v" and "vo = None \<or> vo = Some v"
    and "noValidHit env (evalCache st) (getFingerprint env resFlake) a"
    and "attrIsDerivation env v a d"
  shows "\<exists>w'. attrPathLoop env flakeRef resFlake attrPaths (a # post) vo st =
           (Inr [d], st\<lparr>world := w',
                        outputsEvaluated := outputsEvaluated st + (if vo = None then 1 else 0),
                        evalCache := (evalCache st)((getFingerprint env resFlake, a) \<mapsto> d)\<rparr>)"
proof -
  have nh: "validCacheHit env (getFingerprint env resFlake) a st = None"
    using assms(3) by (rule noValidHit_validCacheHit)
  from ensureOutputs_cases[OF assms(1,2)] obtain w1 where
    eo: "ensureOutputs env flakeRef resFlake vo st =
           (Inr v, st\<lparr>world := w1,
                      outputsEvaluated := outputsEvaluated st + (if vo = None then 1 else 0)\<rparr>)"
    by blast
  let ?st1 = "st\<lparr>world := w1,
                outputsEvaluated := outputsEvaluated st + (if vo = None then 1 else 0)\<rparr>"
  from evalAttrPath_derivation[OF assms(4)] obtain w2 where
    ea: "evalAttrPath env (getFingerprint env resFlake) a v ?st1 =
           (Inr d, ?st1\<lparr>world := w2,
                        evalCache := (evalCache ?st1)((getFingerprint env resFlake, a) \<mapsto> d)\<rparr>)"
    by blast
  have "attrPathLoop env flakeRef resFlake attrPaths (a # post) vo st =
           (Inr [d], st\<lparr>world := w2,
                        outputsEvaluated := outputsEvaluated st + (if vo = None then 1 else 0),
                        evalCache := (evalCache st)((getFingerprint env resFlake, a) \<mapsto> d)\<rparr>)"
    by (simp add: nh eo ea)
  then show ?thesis by blast
qed

lemma attrPathLoop_no_derivation:
  assumes "outputsAre env flakeRef resFlake v" and "vo = None \<or> vo = Some v"
    and "noValidHit env (evalCache st) (getFingerprint env resFlake) a"
    and "attrIsNoDerivation env v a"
  shows "fst (attrPathLoop env flakeRef resFlake attrPaths (a # post) vo st) =
           Inl (Error ''flake output attribute '%s' is not a derivation'' [ArgStr a])"
proof -
  have nh: "validCacheHit env (getFingerprint env resFlake) a st = None"
    using assms(3) by (rule noValidHit_validCacheHit)
  from ensureOutputs_cases[OF assms(1,2)] obtain w1 where
    eo: "ensureOutputs env flakeRef resFlake vo st =
           (Inr v, st\<lparr>world := w1,
                      outputsEvaluated := outputsEvaluated st + (if vo = None then 1 else 0)\<rparr>)"
    by blast
  let ?st1 = "st\<lparr>world := w1,
                outputsEvaluated := outputsEvaluated st + (if vo = None then 1 else 0)\<rparr>"
  from evalAttrPath_no_derivation[OF assms(4)] obtain w2 where
    ea: "evalAttrPath env (getFingerprint env resFlake) a v ?st1 =
           (Inl (Error ''flake output attribute '%s' is not a derivation'' [ArgStr a]),
            ?st1\<lparr>world := w2\<rparr>)"
    by blast
  show ?thesis by (simp add: nh eo ea)
qed

text \<open>What a resolution does once the flake is resolved and the candidates are known.\<close>

lemma toDerivations_loop:
  assumes "resolvesTo env flakeRef (getLockFileMode opts) resFlake"
    and "getActualAttrPaths attrPaths prefixes = Inr candidates"
  shows "\<exists>w0. toDerivations env opts flakeRef attrPaths prefixes st =
           attrPathLoop env flakeRef resFlake attrPaths candidates None (st\<lparr>world := w0\<rparr>)"
proof -
  from assms(1) obtain w0 where
    "resolveFlake env flakeRef (getLockFileMode opts) (world st) = (Inr resFlake, w0)"
    unfolding resolvesTo_def by blast
  then have "toDerivations env opts flakeRef attrPaths prefixes st =
           attrPathLoop env flakeRef resFlake attrPaths candidates None (st\<lparr>world := w0\<rparr>)"
    using assms(2) by (simp add: toDerivations_def)
  then show ?thesis by blast
qed

lemma toDerivations_skip:
  assumes "resolvesTo env flakeRef (getLockFileMode opts) resFlake"
    and "getActualAttrPaths attrPaths prefixes = Inr (pre @ rest)"
    and "outputsAre env flakeRef resFlake v"
    and "\<forall>c\<in>set pre. attrAbsent env v c"
    and "\<forall>c\<in>set pre. noValidHit env (evalCache st) (getFingerprint env resFlake) c"
  shows "\<exists>w'. toDerivations env opts flakeRef attrPaths prefixes st =
           attrPathLoop env flakeRef resFlake attrPaths rest
             (if pre = [] then None else Some v)
             (st\<lparr>world := w',
                 outputsEvaluated := outputsEvaluated st + (if pre \<noteq> [] then 1 else 0)\<rparr>)"
proof -
  from toDerivations_loop[OF assms(1,2)] obtain w0 where
    l: "toDerivations env opts flakeRef attrPaths prefixes st =
           attrPathLoop env flakeRef resFlake attrPaths (pre @ rest) None (st\<lparr>world := w0\<rparr>)"
    by blast
  have nh: "\<forall>c\<in>set pre. noValidHit env (evalCache (st\<lparr>world := w0\<rparr>)) (getFingerprint env resFlake) c"
    using assms(5) by simp
  from attrPathLoop_skip[OF assms(3,4) nh, of None attrPaths rest] obtain w1 where
    "attrPathLoop env flakeRef resFlake attrPaths (pre @ rest) None (st\<lparr>world := w0\<rparr>) =
       attrPathLoop env flakeRef resFlake attrPaths rest
         (if pre = [] then None else Some v)
         (st\<lparr>world := w0\<rparr>\<lparr>world := w1,
             outputsEvaluated := outputsEvaluated (st\<lparr>world := w0\<rparr>)
                                   + (if pre \<noteq> [] \<and> (None :: 'c option) = None then 1 else 0)\<rparr>)"
    by blast
  with l have "toDerivations env opts flakeRef attrPaths prefixes st =
           attrPathLoop env flakeRef resFlake attrPaths rest
             (if pre = [] then None else Some v)
             (st\<lparr>world := w1,
                 outputsEvaluated := outputsEvaluated st + (if pre \<noteq> [] then 1 else 0)\<rparr>)"
    by simp
  then show ?thesis by blast
qed


lemma absent_not_derivation:
  "attrAbsent env v c \<Longrightarrow> attrIsDerivation env v c d \<Longrightarrow> False"
  unfolding attrAbsent_def attrIsDerivation_def
  by (metis Inl_Inr_False prod.inject)

lemma getActualAttrPaths_nonempty:
  "getActualAttrPaths (first # others) prefixes
     = Inr (map (\<lambda>prefix. prefix @ first) prefixes @ first # others)"
  by (simp add: getActualAttrPaths_def)

text \<open>
  C2. The candidates are every prefix joined with the first attribute path, in order,
  followed by the attribute paths in order. Let the candidates be \<open>pre @ rest\<close>, with
  every candidate of \<open>pre\<close> absent from the flake's outputs (and without a valid cache
  entry). Then the first candidate of \<open>rest\<close> decides: if it denotes a derivation,
  that derivation is the result; if it denotes a value that is no derivation, resolution
  fails for that reason; and if \<open>rest\<close> is empty, every candidate being absent,
  resolution fails with "flake '%s' does not provide attribute %s".
\<close>

theorem candidates_tried_in_order:
  assumes "resolvesTo env flakeRef (getLockFileMode opts) resFlake"
    and "outputsAre env flakeRef resFlake v"
    and "map (\<lambda>prefix. prefix @ first) prefixes @ first # others = pre @ rest"
    and "\<forall>c\<in>set pre. attrAbsent env v c"
    and "\<forall>c\<in>set pre. noValidHit env (evalCache st) (getFingerprint env resFlake) c"
  shows "getActualAttrPaths (first # others) prefixes
           = Inr (map (\<lambda>prefix. prefix @ first) prefixes @ first # others)
    \<and> (\<forall>a post d. rest = a # post
           \<and> noValidHit env (evalCache st) (getFingerprint env resFlake) a
           \<and> attrIsDerivation env v a d
         \<longrightarrow> fst (toDerivations env opts flakeRef (first # others) prefixes st) = Inr [d])
    \<and> (\<forall>a post. rest = a # post
           \<and> noValidHit env (evalCache st) (getFingerprint env resFlake) a
           \<and> attrIsNoDerivation env v a
         \<longrightarrow> fst (toDerivations env opts flakeRef (first # others) prefixes st)
               = Inl (Error ''flake output attribute '%s' is not a derivation'' [ArgStr a]))
    \<and> (rest = []
         \<longrightarrow> fst (toDerivations env opts flakeRef (first # others) prefixes st)
               = Inl (Error ''flake '%s' does not provide attribute %s''
                        [ArgStr (to_string env flakeRef), ArgQuoted (first # others)]))"
proof -
  have g: "getActualAttrPaths (first # others) prefixes = Inr (pre @ rest)"
    using assms(3) by (simp add: getActualAttrPaths_nonempty)
  from toDerivations_skip[OF assms(1) g assms(2,4,5)] obtain w1 where
    sk: "toDerivations env opts flakeRef (first # others) prefixes st =
           attrPathLoop env flakeRef resFlake (first # others) rest
             (if pre = [] then None else Some v)
             (st\<lparr>world := w1,
                 outputsEvaluated := outputsEvaluated st + (if pre \<noteq> [] then 1 else 0)\<rparr>)"
    by blast
  let ?st1 = "st\<lparr>world := w1,
                 outputsEvaluated := outputsEvaluated st + (if pre \<noteq> [] then 1 else 0)\<rparr>"
  let ?vo = "if pre = [] then None else Some v"
  have vo: "?vo = None \<or> ?vo = Some v" by simp
  have A: "\<forall>a post d. rest = a # post
           \<and> noValidHit env (evalCache st) (getFingerprint env resFlake) a
           \<and> attrIsDerivation env v a d
         \<longrightarrow> fst (toDerivations env opts flakeRef (first # others) prefixes st) = Inr [d]"
  proof (intro allI impI)
    fix a post d
    assume h: "rest = a # post
           \<and> noValidHit env (evalCache st) (getFingerprint env resFlake) a
           \<and> attrIsDerivation env v a d"
    then have nh: "noValidHit env (evalCache ?st1) (getFingerprint env resFlake) a" by simp
    from h have rest: "rest = a # post" and isd: "attrIsDerivation env v a d" by simp_all
    from attrPathLoop_fresh[OF assms(2) vo nh isd, of "first # others" post] obtain w2 where
      fr: "attrPathLoop env flakeRef resFlake (first # others) (a # post) ?vo ?st1 =
           (Inr [d], ?st1\<lparr>world := w2,
                        outputsEvaluated := outputsEvaluated ?st1 + (if ?vo = None then 1 else 0),
                        evalCache := (evalCache ?st1)((getFingerprint env resFlake, a) \<mapsto> d)\<rparr>)"
      by blast
    show "fst (toDerivations env opts flakeRef (first # others) prefixes st) = Inr [d]"
      unfolding sk rest fr by simp
  qed
  have B: "\<forall>a post. rest = a # post
           \<and> noValidHit env (evalCache st) (getFingerprint env resFlake) a
           \<and> attrIsNoDerivation env v a
         \<longrightarrow> fst (toDerivations env opts flakeRef (first # others) prefixes st)
               = Inl (Error ''flake output attribute '%s' is not a derivation'' [ArgStr a])"
  proof (intro allI impI)
    fix a post
    assume h: "rest = a # post
           \<and> noValidHit env (evalCache st) (getFingerprint env resFlake) a
           \<and> attrIsNoDerivation env v a"
    then have nh: "noValidHit env (evalCache ?st1) (getFingerprint env resFlake) a" by simp
    from h have rest: "rest = a # post" and nod: "attrIsNoDerivation env v a" by simp_all
    show "fst (toDerivations env opts flakeRef (first # others) prefixes st)
               = Inl (Error ''flake output attribute '%s' is not a derivation'' [ArgStr a])"
      unfolding sk rest
      by (rule attrPathLoop_no_derivation[OF assms(2) vo nh nod])
  qed
  have C: "rest = []
         \<longrightarrow> fst (toDerivations env opts flakeRef (first # others) prefixes st)
               = Inl (Error ''flake '%s' does not provide attribute %s''
                        [ArgStr (to_string env flakeRef), ArgQuoted (first # others)])"
  proof
    assume "rest = []"
    then show "fst (toDerivations env opts flakeRef (first # others) prefixes st)
               = Inl (Error ''flake '%s' does not provide attribute %s''
                        [ArgStr (to_string env flakeRef), ArgQuoted (first # others)])"
      unfolding sk by simp
  qed
  show ?thesis by (intro conjI getActualAttrPaths_nonempty A B C)
qed

lemma ensureOutputs_world:
  assumes "outputsAre env flakeRef resFlake v"
  shows "ensureOutputs env flakeRef resFlake None st =
           (Inr v, st\<lparr>world := snd (getFlakeOutputs env flakeRef resFlake (world st)),
                      outputsEvaluated := Suc (outputsEvaluated st)\<rparr>)"
proof -
  from assms obtain w' where "getFlakeOutputs env flakeRef resFlake (world st) = (Inr v, w')"
    unfolding outputsAre_def by blast
  then show ?thesis by (simp add: ensureOutputs_def)
qed

lemma evalAttrPath_absent_world:
  assumes "attrAbsent env v c"
  shows "\<exists>m. evalAttrPath env fp c v st =
           (Inl (AttrPathNotFound m), st\<lparr>world := snd (findAlongAttrPath env v c (world st))\<rparr>)"
proof -
  from assms obtain m w' where
    "findAlongAttrPath env v c (world st) = (Inl (AttrPathNotFound m), w')"
    unfolding attrAbsent_def by blast
  then have "evalAttrPath env fp c v st =
           (Inl (AttrPathNotFound m), st\<lparr>world := snd (findAlongAttrPath env v c (world st))\<rparr>)"
    by (simp add: evalAttrPath_def)
  then show ?thesis by blast
qed

lemma validCacheHit_uncached:
  "evalCache st (fp, c) = None \<Longrightarrow> validCacheHit env fp c st = None"
  by (simp add: validCacheHit_def cacheGetDerivation_def)

lemma validCacheHit_valid:
  "evalCache st (fp, c) = Some d \<Longrightarrow> storeIsValidPath env (world st) (Derivation.drvPath d)
     \<Longrightarrow> validCacheHit env fp c st = Some d"
  by (simp add: validCacheHit_def cacheGetDerivation_def)

lemma validCacheHit_stale:
  "\<forall>d0. evalCache st (fp, c) = Some d0
          \<longrightarrow> \<not> storeIsValidPath env (world st) (Derivation.drvPath d0)
     \<Longrightarrow> validCacheHit env fp c st = None"
  by (auto simp: validCacheHit_def cacheGetDerivation_def split: option.splits)

lemma attrPathLoop_skip_evaluated:
  assumes "\<forall>c\<in>set pre. attrAbsent env v c"
    and "\<forall>c\<in>set pre. evalCache st (getFingerprint env resFlake, c) = None"
  shows "attrPathLoop env flakeRef resFlake attrPaths (pre @ rest) (Some v) st =
           attrPathLoop env flakeRef resFlake attrPaths rest (Some v)
             (st\<lparr>world := skipWorld env v pre (world st)\<rparr>)"
  using assms
proof (induction pre arbitrary: st)
  case Nil
  then show ?case by simp
next
  case (Cons c pre)
  have nh: "validCacheHit env (getFingerprint env resFlake) c st = None"
    using Cons.prems(2) by (simp add: validCacheHit_uncached)
  have "attrAbsent env v c" using Cons.prems(1) by simp
  from evalAttrPath_absent_world[OF this] obtain m where
    ea: "evalAttrPath env (getFingerprint env resFlake) c v st =
           (Inl (AttrPathNotFound m), st\<lparr>world := snd (findAlongAttrPath env v c (world st))\<rparr>)"
    by blast
  let ?st1 = "st\<lparr>world := snd (findAlongAttrPath env v c (world st))\<rparr>"
  have step: "attrPathLoop env flakeRef resFlake attrPaths ((c # pre) @ rest) (Some v) st
                = attrPathLoop env flakeRef resFlake attrPaths (pre @ rest) (Some v) ?st1"
    by (simp add: nh ea ensureOutputs_def)
  have p1: "\<forall>c\<in>set pre. attrAbsent env v c" using Cons.prems(1) by simp
  have p2: "\<forall>c\<in>set pre. evalCache ?st1 (getFingerprint env resFlake, c) = None"
    using Cons.prems(2) by simp
  have "attrPathLoop env flakeRef resFlake attrPaths (pre @ rest) (Some v) ?st1 =
           attrPathLoop env flakeRef resFlake attrPaths rest (Some v)
             (?st1\<lparr>world := skipWorld env v pre (world ?st1)\<rparr>)"
    by (rule Cons.IH[OF p1 p2])
  with step show ?case by simp
qed

lemma attrPathLoop_skip_world:
  assumes "outputsAre env flakeRef resFlake v"
    and "\<forall>c\<in>set pre. attrAbsent env v c"
    and "\<forall>c\<in>set pre. evalCache st (getFingerprint env resFlake, c) = None"
  shows "attrPathLoop env flakeRef resFlake attrPaths (pre @ rest) None st =
           attrPathLoop env flakeRef resFlake attrPaths rest
             (if pre = [] then None else Some v)
             (st\<lparr>world := lookupWorld env flakeRef resFlake v pre (world st),
                 outputsEvaluated := outputsEvaluated st + (if pre = [] then 0 else 1)\<rparr>)"
proof (cases pre)
  case Nil
  then show ?thesis by (simp add: lookupWorld_def)
next
  case (Cons c cs)
  have nh: "validCacheHit env (getFingerprint env resFlake) c st = None"
    using assms(3) Cons by (simp add: validCacheHit_uncached)
  let ?st1 = "st\<lparr>world := snd (getFlakeOutputs env flakeRef resFlake (world st)),
                outputsEvaluated := Suc (outputsEvaluated st)\<rparr>"
  have "attrAbsent env v c" using assms(2) Cons by simp
  from evalAttrPath_absent_world[OF this] obtain m where
    ea: "evalAttrPath env (getFingerprint env resFlake) c v ?st1 =
           (Inl (AttrPathNotFound m), ?st1\<lparr>world := snd (findAlongAttrPath env v c (world ?st1))\<rparr>)"
    by blast
  let ?st2 = "?st1\<lparr>world := snd (findAlongAttrPath env v c (world ?st1))\<rparr>"
  have step: "attrPathLoop env flakeRef resFlake attrPaths ((c # cs) @ rest) None st
                = attrPathLoop env flakeRef resFlake attrPaths (cs @ rest) (Some v) ?st2"
    by (simp add: nh ensureOutputs_world[OF assms(1)] ea)
  have p1: "\<forall>c\<in>set cs. attrAbsent env v c" using assms(2) Cons by simp
  have p2: "\<forall>c\<in>set cs. evalCache ?st2 (getFingerprint env resFlake, c) = None"
    using assms(3) Cons by simp
  have ih: "attrPathLoop env flakeRef resFlake attrPaths (cs @ rest) (Some v) ?st2 =
           attrPathLoop env flakeRef resFlake attrPaths rest (Some v)
             (?st2\<lparr>world := skipWorld env v cs (world ?st2)\<rparr>)"
    by (rule attrPathLoop_skip_evaluated[OF p1 p2])
  have eq: "?st2\<lparr>world := skipWorld env v cs (world ?st2)\<rparr>
              = st\<lparr>world := lookupWorld env flakeRef resFlake v (c # cs) (world st),
                   outputsEvaluated := outputsEvaluated st + (if c # cs = [] then 0 else 1)\<rparr>"
    by (rule EvalState.equality) (simp_all add: lookupWorld_def)
  have vo: "(if c # cs = [] then None else Some v) = Some v" by simp
  show ?thesis
    unfolding Cons step ih eq vo ..
qed

lemma toDerivations_skip_world:
  assumes "resolvesTo env flakeRef (getLockFileMode opts) resFlake"
    and "getActualAttrPaths attrPaths prefixes = Inr (pre @ rest)"
    and "outputsAre env flakeRef resFlake v"
    and "\<forall>c\<in>set pre. attrAbsent env v c"
    and "\<forall>c\<in>set pre. evalCache st (getFingerprint env resFlake, c) = None"
  shows "toDerivations env opts flakeRef attrPaths prefixes st =
           attrPathLoop env flakeRef resFlake attrPaths rest
             (if pre = [] then None else Some v)
             (st\<lparr>world := worldAtLookup env opts flakeRef resFlake v pre (world st),
                 outputsEvaluated := outputsEvaluated st + (if pre = [] then 0 else 1)\<rparr>)"
proof -
  from assms(1) obtain w0 where
    r: "resolveFlake env flakeRef (getLockFileMode opts) (world st) = (Inr resFlake, w0)"
    unfolding resolvesTo_def by blast
  have l: "toDerivations env opts flakeRef attrPaths prefixes st =
           attrPathLoop env flakeRef resFlake attrPaths (pre @ rest) None (st\<lparr>world := w0\<rparr>)"
    using r assms(2) by (simp add: toDerivations_def)
  have nc: "\<forall>c\<in>set pre. evalCache (st\<lparr>world := w0\<rparr>) (getFingerprint env resFlake, c) = None"
    using assms(5) by simp
  note sk = attrPathLoop_skip_world[OF assms(3,4) nc, of attrPaths rest]
  have eq: "st\<lparr>world := w0\<rparr>
              \<lparr>world := lookupWorld env flakeRef resFlake v pre (world (st\<lparr>world := w0\<rparr>)),
               outputsEvaluated := outputsEvaluated (st\<lparr>world := w0\<rparr>)
                                     + (if pre = [] then 0 else 1)\<rparr>
            = st\<lparr>world := worldAtLookup env opts flakeRef resFlake v pre (world st),
                 outputsEvaluated := outputsEvaluated st + (if pre = [] then 0 else 1)\<rparr>"
    by (rule EvalState.equality) (simp_all add: worldAtLookup_def r)
  show ?thesis
    unfolding l sk eq ..
qed

lemma attrPathLoop_valid_hit:
  assumes "evalCache st (getFingerprint env resFlake, a) = Some d"
    and "storeIsValidPath env (world st) (Derivation.drvPath d)"
  shows "attrPathLoop env flakeRef resFlake attrPaths (a # post) vo st = (Inr [d], st)"
  using validCacheHit_valid[OF assms] by simp

lemma attrPathLoop_fresh_evaluation:
  assumes "outputsAre env flakeRef resFlake v" and "vo = None \<or> vo = Some v"
    and "validCacheHit env (getFingerprint env resFlake) a st = None"
    and "attrIsDerivation env v a d"
  shows "\<exists>w'. attrPathLoop env flakeRef resFlake attrPaths (a # post) vo st =
           (Inr [d], st\<lparr>world := w',
                        outputsEvaluated := outputsEvaluated st + (if vo = None then 1 else 0),
                        evalCache := (evalCache st)((getFingerprint env resFlake, a) \<mapsto> d)\<rparr>)"
proof -
  from ensureOutputs_cases[OF assms(1,2)] obtain w1 where
    eo: "ensureOutputs env flakeRef resFlake vo st =
           (Inr v, st\<lparr>world := w1,
                      outputsEvaluated := outputsEvaluated st + (if vo = None then 1 else 0)\<rparr>)"
    by blast
  let ?st1 = "st\<lparr>world := w1,
                outputsEvaluated := outputsEvaluated st + (if vo = None then 1 else 0)\<rparr>"
  from evalAttrPath_derivation[OF assms(4)] obtain w2 where
    ea: "evalAttrPath env (getFingerprint env resFlake) a v ?st1 =
           (Inr d, ?st1\<lparr>world := w2,
                        evalCache := (evalCache ?st1)((getFingerprint env resFlake, a) \<mapsto> d)\<rparr>)"
    by blast
  have "attrPathLoop env flakeRef resFlake attrPaths (a # post) vo st =
           (Inr [d], st\<lparr>world := w2,
                        outputsEvaluated := outputsEvaluated st + (if vo = None then 1 else 0),
                        evalCache := (evalCache st)((getFingerprint env resFlake, a) \<mapsto> d)\<rparr>)"
    by (simp add: assms(3) eo ea)
  then show ?thesis by blast
qed

text \<open>
  C1 (as amended). Let the candidates before \<open>a\<close> be absent and never recorded, let
  \<open>a\<close> denote the derivation \<open>d\<close>, and let the cache entry of \<open>a\<close>, if there is
  one, have a derivation path that is not valid in the store as it is when the loop
  looks it up. The first resolution then evaluates the flake's outputs once, returns
  \<open>d\<close> and records it under the fingerprint and \<open>a\<close>. A second resolution with the
  same fingerprint, started in whatever world \<open>w\<close>, reads the validity of the recorded
  derivation path in the store as it is at its own lookup. If the path is valid there,
  it returns the same \<open>d\<close> from the cache, leaves the cache as it is, and the
  buildables are the same; it does not evaluate the flake's outputs when \<open>a\<close> is the
  first candidate, and evaluates them once more when candidates come before \<open>a\<close>. If
  the path is not valid there, the hit is stale: the outputs are evaluated afresh and
  \<open>d\<close> is recorded again.
\<close>

theorem second_resolution_uses_cache:
  assumes "resolvesTo env flakeRef (getLockFileMode opts) resFlake"
    and "outputsAre env flakeRef resFlake v"
    and "getActualAttrPaths attrPaths prefixes = Inr (pre @ a # post)"
    and "\<forall>c\<in>set pre. attrAbsent env v c"
    and "\<forall>c\<in>set pre. evalCache st0 (getFingerprint env resFlake, c) = None"
    and "attrIsDerivation env v a d"
    and "\<forall>d0. evalCache st0 (getFingerprint env resFlake, a) = Some d0
           \<longrightarrow> \<not> storeIsValidPath env
                    (worldAtLookup env opts flakeRef resFlake v pre (world st0))
                    (Derivation.drvPath d0)"
  shows "\<exists>st1. toDerivations env opts flakeRef attrPaths prefixes st0 = (Inr [d], st1)
           \<and> evalCache st1 = (evalCache st0)((getFingerprint env resFlake, a) \<mapsto> d)
           \<and> outputsEvaluated st1 = Suc (outputsEvaluated st0)
           \<and> (\<forall>w. storeIsValidPath env (worldAtLookup env opts flakeRef resFlake v pre w)
                     (Derivation.drvPath d)
                \<longrightarrow> toDerivations env opts flakeRef attrPaths prefixes (st1\<lparr>world := w\<rparr>)
                      = (Inr [d],
                         st1\<lparr>world := worldAtLookup env opts flakeRef resFlake v pre w,
                             outputsEvaluated :=
                               outputsEvaluated st1 + (if pre = [] then 0 else 1)\<rparr>)
                    \<and> fst (toBuildablesFlake env opts flakeRef attrPaths prefixes
                              (st1\<lparr>world := w\<rparr>))
                      = fst (toBuildablesFlake env opts flakeRef attrPaths prefixes st0))
           \<and> (\<forall>w. \<not> storeIsValidPath env (worldAtLookup env opts flakeRef resFlake v pre w)
                       (Derivation.drvPath d)
                \<longrightarrow> (\<exists>st2. toDerivations env opts flakeRef attrPaths prefixes
                              (st1\<lparr>world := w\<rparr>) = (Inr [d], st2)
                           \<and> evalCache st2 = evalCache st1
                           \<and> outputsEvaluated st2 = Suc (outputsEvaluated st1)))"
proof -
  let ?fp = "getFingerprint env resFlake"
  let ?vo = "if pre = [] then None else Some v"
  let ?W = "worldAtLookup env opts flakeRef resFlake v pre"
  have vo: "?vo = None \<or> ?vo = Some v" by simp
  let ?s = "st0\<lparr>world := ?W (world st0),
                 outputsEvaluated := outputsEvaluated st0 + (if pre = [] then 0 else 1)\<rparr>"
  have sk: "toDerivations env opts flakeRef attrPaths prefixes st0 =
              attrPathLoop env flakeRef resFlake attrPaths (a # post) ?vo ?s"
    by (rule toDerivations_skip_world[OF assms(1,3,2,4,5)])
  have nh: "validCacheHit env ?fp a ?s = None"
    by (rule validCacheHit_stale) (use assms(7) in simp)
  from attrPathLoop_fresh_evaluation[OF assms(2) vo nh assms(6), of attrPaths post] obtain w2 where
    fr: "attrPathLoop env flakeRef resFlake attrPaths (a # post) ?vo ?s =
           (Inr [d], ?s\<lparr>world := w2,
                        outputsEvaluated := outputsEvaluated ?s + (if ?vo = None then 1 else 0),
                        evalCache := (evalCache ?s)((?fp, a) \<mapsto> d)\<rparr>)"
    by blast
  let ?st1 = "?s\<lparr>world := w2,
                 outputsEvaluated := outputsEvaluated ?s + (if ?vo = None then 1 else 0),
                 evalCache := (evalCache ?s)((?fp, a) \<mapsto> d)\<rparr>"
  have run1: "toDerivations env opts flakeRef attrPaths prefixes st0 = (Inr [d], ?st1)"
    unfolding sk fr ..
  have c1: "evalCache ?st1 = (evalCache st0)((?fp, a) \<mapsto> d)" by simp
  have n1: "outputsEvaluated ?st1 = Suc (outputsEvaluated st0)" by simp
  have anotin: "a \<notin> set pre"
  proof
    assume "a \<in> set pre"
    with assms(4) have "attrAbsent env v a" by simp
    from absent_not_derivation[OF this assms(6)] show False .
  qed
  have sk2: "toDerivations env opts flakeRef attrPaths prefixes (?st1\<lparr>world := w\<rparr>) =
              attrPathLoop env flakeRef resFlake attrPaths (a # post) ?vo
                (?st1\<lparr>world := ?W w,
                      outputsEvaluated := outputsEvaluated ?st1 + (if pre = [] then 0 else 1)\<rparr>)"
    for w
  proof -
    have nc: "\<forall>c\<in>set pre. evalCache (?st1\<lparr>world := w\<rparr>) (?fp, c) = None"
      using assms(5) anotin by auto
    show ?thesis
      using toDerivations_skip_world[OF assms(1,3,2,4) nc] by simp
  qed
  have hit: "storeIsValidPath env (?W w) (Derivation.drvPath d)
      \<longrightarrow> toDerivations env opts flakeRef attrPaths prefixes (?st1\<lparr>world := w\<rparr>)
            = (Inr [d],
               ?st1\<lparr>world := ?W w,
                     outputsEvaluated := outputsEvaluated ?st1 + (if pre = [] then 0 else 1)\<rparr>)
          \<and> fst (toBuildablesFlake env opts flakeRef attrPaths prefixes (?st1\<lparr>world := w\<rparr>))
            = fst (toBuildablesFlake env opts flakeRef attrPaths prefixes st0)" for w
  proof
    assume valid: "storeIsValidPath env (?W w) (Derivation.drvPath d)"
    let ?t1 = "?st1\<lparr>world := ?W w,
                     outputsEvaluated := outputsEvaluated ?st1 + (if pre = [] then 0 else 1)\<rparr>"
    have e: "evalCache ?t1 (?fp, a) = Some d" by simp
    have vw: "storeIsValidPath env (world ?t1) (Derivation.drvPath d)"
      using valid by simp
    have r2: "toDerivations env opts flakeRef attrPaths prefixes (?st1\<lparr>world := w\<rparr>)
                = (Inr [d], ?t1)"
      unfolding sk2 by (rule attrPathLoop_valid_hit[OF e vw])
    have b: "fst (toBuildablesFlake env opts flakeRef attrPaths prefixes (?st1\<lparr>world := w\<rparr>))
              = fst (toBuildablesFlake env opts flakeRef attrPaths prefixes st0)"
      unfolding toBuildablesFlake_def r2 run1 by simp
    show "toDerivations env opts flakeRef attrPaths prefixes (?st1\<lparr>world := w\<rparr>)
            = (Inr [d], ?t1)
          \<and> fst (toBuildablesFlake env opts flakeRef attrPaths prefixes (?st1\<lparr>world := w\<rparr>))
            = fst (toBuildablesFlake env opts flakeRef attrPaths prefixes st0)"
      by (intro conjI r2 b)
  qed
  have stale: "\<not> storeIsValidPath env (?W w) (Derivation.drvPath d)
      \<longrightarrow> (\<exists>st2. toDerivations env opts flakeRef attrPaths prefixes (?st1\<lparr>world := w\<rparr>)
                     = (Inr [d], st2)
                 \<and> evalCache st2 = evalCache ?st1
                 \<and> outputsEvaluated st2 = Suc (outputsEvaluated ?st1))" for w
  proof
    assume invalid: "\<not> storeIsValidPath env (?W w) (Derivation.drvPath d)"
    let ?t1 = "?st1\<lparr>world := ?W w,
                     outputsEvaluated := outputsEvaluated ?st1 + (if pre = [] then 0 else 1)\<rparr>"
    have nh2: "validCacheHit env ?fp a ?t1 = None"
      by (rule validCacheHit_stale) (use invalid in simp)
    from attrPathLoop_fresh_evaluation[OF assms(2) vo nh2 assms(6), of attrPaths post]
    obtain w3 where
      fr2: "attrPathLoop env flakeRef resFlake attrPaths (a # post) ?vo ?t1 =
           (Inr [d], ?t1\<lparr>world := w3,
                         outputsEvaluated := outputsEvaluated ?t1 + (if ?vo = None then 1 else 0),
                         evalCache := (evalCache ?t1)((?fp, a) \<mapsto> d)\<rparr>)"
      by blast
    let ?st2 = "?t1\<lparr>world := w3,
                    outputsEvaluated := outputsEvaluated ?t1 + (if ?vo = None then 1 else 0),
                    evalCache := (evalCache ?t1)((?fp, a) \<mapsto> d)\<rparr>"
    have r: "toDerivations env opts flakeRef attrPaths prefixes (?st1\<lparr>world := w\<rparr>)
               = (Inr [d], ?st2)"
      unfolding sk2 fr2 ..
    have e: "evalCache ?st2 = evalCache ?st1" by simp
    have n: "outputsEvaluated ?st2 = Suc (outputsEvaluated ?st1)" by simp
    show "\<exists>st2. toDerivations env opts flakeRef attrPaths prefixes (?st1\<lparr>world := w\<rparr>)
                     = (Inr [d], st2)
                 \<and> evalCache st2 = evalCache ?st1
                 \<and> outputsEvaluated st2 = Suc (outputsEvaluated ?st1)"
      by (rule exI[of _ ?st2]) (intro conjI r e n)
  qed
  show ?thesis
    by (rule exI[of _ ?st1]) (intro conjI run1 c1 n1 allI hit stale)
qed

lemma example_resolves:
  "resolvesTo exampleEvalEnv ''nixpkgs'' (getLockFileMode exampleOpts) ''fingerprint-1''"
  by (simp add: resolvesTo_def exampleEvalEnv_def)

lemma example_outputs: "outputsAre exampleEvalEnv ''nixpkgs'' ''fingerprint-1'' ''outputs''"
  by (simp add: outputsAre_def exampleEvalEnv_def)

lemma example_fp: "getFingerprint exampleEvalEnv ''fingerprint-1'' = ''fingerprint-1''"
  by (simp add: exampleEvalEnv_def)

lemma example_hello: "attrIsDerivation exampleEvalEnv ''outputs'' ''hello'' helloDrv"
  by (simp add: attrIsDerivation_def exampleEvalEnv_def)

lemma example_legacy:
  "attrIsDerivation exampleEvalEnv ''outputs'' ''legacyPackages.hello'' legacyDrv"
  by (simp add: attrIsDerivation_def exampleEvalEnv_def)

lemma example_lib: "attrIsNoDerivation exampleEvalEnv ''outputs'' ''lib''"
  by (simp add: attrIsNoDerivation_def exampleEvalEnv_def)

lemma example_cold: "noValidHit exampleEvalEnv (evalCache coldState) fp c"
  by (simp add: noValidHit_def coldState_def)

theorem candidates_tried_in_order_witness:
  "fst (toDerivations exampleEvalEnv exampleOpts ''nixpkgs'' [''hello'']
          [''packages.'', ''legacyPackages.''] coldState) = Inr [legacyDrv]
   \<and> fst (toDerivations exampleEvalEnv exampleOpts ''nixpkgs'' [''lib''] [] coldState)
       = Inl (Error ''flake output attribute '%s' is not a derivation'' [ArgStr ''lib''])
   \<and> fst (toDerivations exampleEvalEnv exampleOpts ''nixpkgs'' [''missing''] [''packages.''] coldState)
       = Inl (Error ''flake '%s' does not provide attribute %s''
                [ArgStr ''nixpkgs'', ArgQuoted [''missing'']])"
proof -
  have ab1: "\<forall>c\<in>set [''packages.hello'']. attrAbsent exampleEvalEnv ''outputs'' c"
    by (simp add: attrAbsent_def exampleEvalEnv_def)
  have nh1: "\<forall>c\<in>set [''packages.hello''].
               noValidHit exampleEvalEnv (evalCache coldState)
                 (getFingerprint exampleEvalEnv ''fingerprint-1'') c"
    by (simp add: example_cold)
  have c1: "map (\<lambda>prefix. prefix @ ''hello'') [''packages.'', ''legacyPackages.''] @ ''hello'' # []
              = [''packages.hello''] @ [''legacyPackages.hello'', ''hello'']"
    by simp
  note t1 = candidates_tried_in_order[OF example_resolves example_outputs c1 ab1 nh1]
  have r1: "fst (toDerivations exampleEvalEnv exampleOpts ''nixpkgs'' [''hello'']
          [''packages.'', ''legacyPackages.''] coldState) = Inr [legacyDrv]"
    using t1[THEN conjunct2, THEN conjunct1, rule_format,
             of "''legacyPackages.hello''" "[''hello'']" legacyDrv]
          example_legacy example_cold
    by simp
  have ab2: "\<forall>c\<in>set []. attrAbsent exampleEvalEnv ''outputs'' c" by simp
  have nh2: "\<forall>c\<in>set [].
               noValidHit exampleEvalEnv (evalCache coldState)
                 (getFingerprint exampleEvalEnv ''fingerprint-1'') c"
    by simp
  have c2: "map (\<lambda>prefix. prefix @ ''lib'') [] @ ''lib'' # [] = [] @ [''lib'']" by simp
  note t2 = candidates_tried_in_order[OF example_resolves example_outputs c2 ab2 nh2]
  have r2: "fst (toDerivations exampleEvalEnv exampleOpts ''nixpkgs'' [''lib''] [] coldState)
       = Inl (Error ''flake output attribute '%s' is not a derivation'' [ArgStr ''lib''])"
    using t2[THEN conjunct2, THEN conjunct2, THEN conjunct1, rule_format, of "''lib''" "[]"]
          example_lib example_cold
    by simp
  have ab3: "\<forall>c\<in>set [''packages.missing'', ''missing'']. attrAbsent exampleEvalEnv ''outputs'' c"
    by (simp add: attrAbsent_def exampleEvalEnv_def)
  have nh3: "\<forall>c\<in>set [''packages.missing'', ''missing''].
               noValidHit exampleEvalEnv (evalCache coldState)
                 (getFingerprint exampleEvalEnv ''fingerprint-1'') c"
    by (simp add: example_cold)
  have c3: "map (\<lambda>prefix. prefix @ ''missing'') [''packages.''] @ ''missing'' # []
              = [''packages.missing'', ''missing''] @ []"
    by simp
  note t3 = candidates_tried_in_order[OF example_resolves example_outputs c3 ab3 nh3]
  have r3: "fst (toDerivations exampleEvalEnv exampleOpts ''nixpkgs'' [''missing''] [''packages.''] coldState)
       = Inl (Error ''flake '%s' does not provide attribute %s''
                [ArgStr ''nixpkgs'', ArgQuoted [''missing'']])"
    using t3[THEN conjunct2, THEN conjunct2, THEN conjunct2]
    by (simp add: exampleEvalEnv_def)
  show ?thesis by (intro conjI r1 r2 r3)
qed

lemma storeEnv_resolves:
  "resolvesTo storeEvalEnv ''nixpkgs'' (getLockFileMode exampleOpts) ''fingerprint-1''"
  by (simp add: resolvesTo_def storeEvalEnv_def)

lemma storeEnv_outputs: "outputsAre storeEvalEnv ''nixpkgs'' ''fingerprint-1'' ''outputs''"
  by (simp add: outputsAre_def storeEvalEnv_def)

lemma storeEnv_hello: "attrIsDerivation storeEvalEnv ''outputs'' ''hello'' helloDrv"
  by (simp add: attrIsDerivation_def storeEvalEnv_def)

lemma storeEnv_worldAtLookup:
  "worldAtLookup storeEvalEnv exampleOpts ''nixpkgs'' ''fingerprint-1'' ''outputs''
     [''packages.hello''] w = w"
  by (simp add: worldAtLookup_def lookupWorld_def storeEvalEnv_def)

theorem second_resolution_uses_cache_witness:
  "\<exists>st1. toDerivations storeEvalEnv exampleOpts ''nixpkgs'' [''hello''] [''packages.'']
            collectedState = (Inr [helloDrv], st1)
         \<and> outputsEvaluated st1 = 1
         \<and> toDerivations storeEvalEnv exampleOpts ''nixpkgs'' [''hello''] [''packages.'']
             (st1\<lparr>world := {''/nix/store/hello.drv''}\<rparr>)
             = (Inr [helloDrv], st1\<lparr>world := {''/nix/store/hello.drv''}, outputsEvaluated := 2\<rparr>)
         \<and> (\<exists>st2. toDerivations storeEvalEnv exampleOpts ''nixpkgs'' [''hello''] [''packages.'']
                     (st1\<lparr>world := {}\<rparr>) = (Inr [helloDrv], st2)
                  \<and> outputsEvaluated st2 = 2)"
proof -
  have g: "getActualAttrPaths [''hello''] [''packages.''] = Inr ([''packages.hello''] @ ''hello'' # [])"
    by (simp add: getActualAttrPaths_def)
  have ab: "\<forall>c\<in>set [''packages.hello'']. attrAbsent storeEvalEnv ''outputs'' c"
    by (simp add: attrAbsent_def storeEvalEnv_def)
  have nc: "\<forall>c\<in>set [''packages.hello''].
              evalCache collectedState (getFingerprint storeEvalEnv ''fingerprint-1'', c) = None"
    by (simp add: collectedState_def storeEvalEnv_def)
  have stale: "\<forall>d0. evalCache collectedState (getFingerprint storeEvalEnv ''fingerprint-1'', ''hello'')
                      = Some d0
           \<longrightarrow> \<not> storeIsValidPath storeEvalEnv
                    (worldAtLookup storeEvalEnv exampleOpts ''nixpkgs'' ''fingerprint-1'' ''outputs''
                       [''packages.hello''] (world collectedState))
                    (Derivation.drvPath d0)"
    unfolding storeEnv_worldAtLookup by (simp add: collectedState_def storeEvalEnv_def)
  from second_resolution_uses_cache
         [OF storeEnv_resolves storeEnv_outputs g ab nc storeEnv_hello stale]
  obtain st1 where
    1: "toDerivations storeEvalEnv exampleOpts ''nixpkgs'' [''hello''] [''packages.'']
          collectedState = (Inr [helloDrv], st1)"
    and 3: "outputsEvaluated st1 = Suc (outputsEvaluated collectedState)"
    and 4: "\<forall>w. storeIsValidPath storeEvalEnv
                  (worldAtLookup storeEvalEnv exampleOpts ''nixpkgs'' ''fingerprint-1'' ''outputs''
                     [''packages.hello''] w)
                  (Derivation.drvPath helloDrv)
                \<longrightarrow> toDerivations storeEvalEnv exampleOpts ''nixpkgs'' [''hello''] [''packages.'']
                        (st1\<lparr>world := w\<rparr>)
                      = (Inr [helloDrv],
                         st1\<lparr>world := worldAtLookup storeEvalEnv exampleOpts ''nixpkgs''
                                         ''fingerprint-1'' ''outputs'' [''packages.hello''] w,
                             outputsEvaluated :=
                               outputsEvaluated st1
                                 + (if [''packages.hello''] = [] then 0 else 1)\<rparr>)
                    \<and> fst (toBuildablesFlake storeEvalEnv exampleOpts ''nixpkgs'' [''hello'']
                              [''packages.''] (st1\<lparr>world := w\<rparr>))
                      = fst (toBuildablesFlake storeEvalEnv exampleOpts ''nixpkgs'' [''hello'']
                               [''packages.''] collectedState)"
    and 5: "\<forall>w. \<not> storeIsValidPath storeEvalEnv
                  (worldAtLookup storeEvalEnv exampleOpts ''nixpkgs'' ''fingerprint-1'' ''outputs''
                     [''packages.hello''] w)
                  (Derivation.drvPath helloDrv)
                \<longrightarrow> (\<exists>st2. toDerivations storeEvalEnv exampleOpts ''nixpkgs'' [''hello'']
                              [''packages.''] (st1\<lparr>world := w\<rparr>) = (Inr [helloDrv], st2)
                           \<and> evalCache st2 = evalCache st1
                           \<and> outputsEvaluated st2 = Suc (outputsEvaluated st1))"
    by (elim exE conjE)
  have b: "outputsEvaluated st1 = 1" using 3 by (simp add: collectedState_def)
  have valid: "storeIsValidPath storeEvalEnv
                  (worldAtLookup storeEvalEnv exampleOpts ''nixpkgs'' ''fingerprint-1'' ''outputs''
                     [''packages.hello''] {''/nix/store/hello.drv''})
                  (Derivation.drvPath helloDrv)"
    unfolding storeEnv_worldAtLookup by (simp add: storeEvalEnv_def helloDrv_def)
  have h: "toDerivations storeEvalEnv exampleOpts ''nixpkgs'' [''hello''] [''packages.'']
             (st1\<lparr>world := {''/nix/store/hello.drv''}\<rparr>)
             = (Inr [helloDrv], st1\<lparr>world := {''/nix/store/hello.drv''}, outputsEvaluated := 2\<rparr>)"
    using 4[rule_format, OF valid, THEN conjunct1] b
    unfolding storeEnv_worldAtLookup by simp
  have invalid: "\<not> storeIsValidPath storeEvalEnv
                  (worldAtLookup storeEvalEnv exampleOpts ''nixpkgs'' ''fingerprint-1'' ''outputs''
                     [''packages.hello''] {})
                  (Derivation.drvPath helloDrv)"
    unfolding storeEnv_worldAtLookup by (simp add: storeEvalEnv_def)
  from 5[rule_format, OF invalid] obtain st2 where
    6: "toDerivations storeEvalEnv exampleOpts ''nixpkgs'' [''hello''] [''packages.'']
          (st1\<lparr>world := {}\<rparr>) = (Inr [helloDrv], st2)"
    and 7: "outputsEvaluated st2 = Suc (outputsEvaluated st1)"
    by (elim exE conjE)
  have s: "\<exists>st2. toDerivations storeEvalEnv exampleOpts ''nixpkgs'' [''hello''] [''packages.'']
                     (st1\<lparr>world := {}\<rparr>) = (Inr [helloDrv], st2)
                  \<and> outputsEvaluated st2 = 2"
    using 6 7 b by (intro exI[of _ st2]) simp
  show ?thesis by (rule exI[of _ st1]) (intro conjI 1 b h s)
qed

lemma example_run1:
  "toDerivations exampleEvalEnv exampleOpts ''nixpkgs'' [''hello''] [''packages.''] coldState
     = (Inr [helloDrv],
        \<lparr>world = 5, evalCache = [(''fingerprint-1'', ''hello'') \<mapsto> helloDrv],
         outputsEvaluated = 1\<rparr>)"
  by (simp add: toDerivations_def getActualAttrPaths_def exampleEvalEnv_def coldState_def
        validCacheHit_def cacheGetDerivation_def ensureOutputs_def evalAttrPath_def
        cacheAddDerivation_def)

lemma example_run2:
  "toDerivations exampleEvalEnv exampleOpts ''nixpkgs'' [''hello''] [''packages.'']
        \<lparr>world = 5, evalCache = [(''fingerprint-1'', ''hello'') \<mapsto> helloDrv],
         outputsEvaluated = 1\<rparr>
     = (Inr [helloDrv],
        \<lparr>world = 8, evalCache = [(''fingerprint-1'', ''hello'') \<mapsto> helloDrv],
         outputsEvaluated = 2\<rparr>)"
  by (simp add: toDerivations_def getActualAttrPaths_def exampleEvalEnv_def
        validCacheHit_def cacheGetDerivation_def ensureOutputs_def evalAttrPath_def
        cacheAddDerivation_def helloDrv_def)

text \<open>
  The second resolution of \<open>nixpkgs:hello\<close> with the prefix \<open>packages.\<close>: the lock
  state is the same and the recorded derivation path is valid, the result is the same,
  and the flake's outputs have been evaluated a second time, because the first candidate
  \<open>packages.hello\<close> is not in the cache.
\<close>

theorem second_resolution_evaluates_again:
  "fst (toDerivations exampleEvalEnv exampleOpts ''nixpkgs'' [''hello''] [''packages.''] coldState)
     = Inr [helloDrv]
   \<and> outputsEvaluated (snd (toDerivations exampleEvalEnv exampleOpts ''nixpkgs'' [''hello'']
                               [''packages.''] coldState)) = 1
   \<and> storeIsValidPath exampleEvalEnv
        (world (snd (toDerivations exampleEvalEnv exampleOpts ''nixpkgs'' [''hello'']
                       [''packages.''] coldState)))
        (Derivation.drvPath helloDrv)
   \<and> fst (toDerivations exampleEvalEnv exampleOpts ''nixpkgs'' [''hello''] [''packages.'']
            (snd (toDerivations exampleEvalEnv exampleOpts ''nixpkgs'' [''hello'']
                    [''packages.''] coldState)))
     = Inr [helloDrv]
   \<and> outputsEvaluated
        (snd (toDerivations exampleEvalEnv exampleOpts ''nixpkgs'' [''hello''] [''packages.'']
                (snd (toDerivations exampleEvalEnv exampleOpts ''nixpkgs'' [''hello'']
                        [''packages.''] coldState)))) = 2"
  unfolding example_run1 snd_conv fst_conv example_run2
  by (simp add: exampleEvalEnv_def helloDrv_def)


end
